theory Spec2Isabelle
  imports Complex_Main "HOL-Library.Word"
begin

section \<open>Data model\<close>

text \<open>
  The program is \<^verbatim>\<open>LogisticRegression.c\<close>: \<^verbatim>\<open>initNode\<close>, \<^verbatim>\<open>normalize\<close>,
  \<^verbatim>\<open>activate\<close>, \<^verbatim>\<open>computeCost\<close> and the gradient-descent loop of \<^verbatim>\<open>main\<close>.

  Numbers. A C \<^verbatim>\<open>double\<close> is modelled by the real number it denotes and the operators
  \<^verbatim>\<open>+ - * /\<close>, \<^verbatim>\<open>exp\<close> and \<^verbatim>\<open>log\<close> by the exact operations on \<open>real\<close>: rounding,
  overflow to infinity and NaN are not part of this model (the section on rounded
  arithmetic models \<^verbatim>\<open>activate\<close> a second time, with rounding). An \<^verbatim>\<open>unsigned int\<close> is a
  \<open>nat\<close>; where the source computes an index or a size in \<^verbatim>\<open>unsigned int\<close> arithmetic
  the reduction \<open>mod 2 ^ 32\<close> is written out. Loop counters that are compared against
  an \<^verbatim>\<open>unsigned int\<close> bound before each increment cannot wrap and carry no reduction.
  An \<^verbatim>\<open>unsigned short\<close> class index is a \<open>16 word\<close>.

  Memory. A \<^verbatim>\<open>double*\<close> buffer is a \<open>real list\<close>; a pointer into the feature
  buffer is the index of the element it points to. Reads and writes outside a buffer are
  undefined behaviour in C; the theorems below are stated for buffers of the size the
  program expects, where no such access happens. \<^verbatim>\<open>malloc\<close> is taken to succeed.
  Console output and the wall-clock timing of \<^verbatim>\<open>main\<close> are left out.
\<close>

text \<open>
  Modelled from the spec: the struct \<^verbatim>\<open>NumericAttr\<close> is declared in
  \<^verbatim>\<open>BasicDataStructures.h\<close>, which is not among the sources. The spec's
  FeatureDescriptor has a name and the statistics min, max and mean; \<^verbatim>\<open>normalize\<close>
  reads the fields \<^verbatim>\<open>min\<close>, \<^verbatim>\<open>max\<close> and \<^verbatim>\<open>mean\<close>.
\<close>

record NumericAttr =
  name :: string
  min_attr :: real
  max_attr :: real
  mean :: real

section \<open>normalize\<close>

text \<open>
  \<^verbatim>\<open>normalize\<close> receives the descriptors by value and the buffer by pointer; the
  model returns the buffer after the call. \<open>normalize_cell\<close> is the assignment in the
  inner loop, \<open>normalize_column\<close> the body of the outer loop for one \<open>i\<close>.
\<close>

definition normalize_cell :: "NumericAttr list \<Rightarrow> nat \<Rightarrow> nat \<Rightarrow> real \<Rightarrow> nat \<Rightarrow> real list \<Rightarrow> real list" where
  "normalize_cell featureVec numFeatures i range' j featureBuff =
     (let featureIndex = (j * numFeatures + i) mod 2 ^ 32
      in featureBuff[featureIndex :=
           (featureBuff ! featureIndex - mean (featureVec ! i)) / range'])"

definition normalize_column :: "NumericAttr list \<Rightarrow> nat \<Rightarrow> nat \<Rightarrow> nat \<Rightarrow> real list \<Rightarrow> real list" where
  "normalize_column featureVec numFeatures numInstances i featureBuff =
     (let range' = max_attr (featureVec ! i) - min_attr (featureVec ! i)
      in if range' = 0 then featureBuff
         else fold (normalize_cell featureVec numFeatures i range') [0..<numInstances] featureBuff)"

definition normalize :: "NumericAttr list \<Rightarrow> real list \<Rightarrow> nat \<Rightarrow> real list" where
  "normalize featureVec featureBuff numInstances =
     (let numFeatures = length featureVec mod 2 ^ 32
      in fold (normalize_column featureVec numFeatures numInstances) [0..<numFeatures] featureBuff)"

section \<open>Bytes and doubles\<close>

text \<open>
  \<^verbatim>\<open>memset\<close> writes bytes, so the value it leaves in a \<^verbatim>\<open>double\<close> is the number whose
  IEEE 754 binary64 encoding has those eight bytes: sign bit 63, biased exponent in bits
  62..52, fraction in bits 51..0. \<open>double_value\<close> decodes the finite patterns; the patterns
  with exponent field 2047 (infinities, NaN) denote no real number and are sent to 0 here;
  the program never creates one with \<^verbatim>\<open>memset\<close>.
\<close>

definition sizeof_double :: nat where
  "sizeof_double = 8"

definition double_value :: "64 word \<Rightarrow> real" where
  "double_value w =
     (let e = unat (take_bit 11 (drop_bit 52 w));
          m = unat (take_bit 52 w);
          magnitude =
            (if e = 0 then real m / 2 ^ 1074
             else if e = 2047 then 0
             else (2 ^ 52 + real m) * 2 ^ e / 2 ^ 1075)
      in if bit w 63 then - magnitude else magnitude)"

definition memset_value :: "8 word \<Rightarrow> real" where
  "memset_value c = double_value (word_rcat (replicate sizeof_double c))"

text \<open>
  \<^verbatim>\<open>malloc\<close> for \<open>n\<close> doubles: the content is indeterminate; the model fills it with 0,
  and the program overwrites every element before reading it.
  \<^verbatim>\<open>memset (buf, c, nbytes)\<close> on a buffer of doubles: the byte counts of this program are
  multiples of \<^verbatim>\<open>sizeof (double)\<close>, so whole elements are overwritten.
\<close>

definition malloc_doubles :: "nat \<Rightarrow> real list" where
  "malloc_doubles n = replicate n 0"

definition memset_doubles :: "real list \<Rightarrow> 8 word \<Rightarrow> nat \<Rightarrow> real list" where
  "memset_doubles buf c nbytes =
     replicate (nbytes div sizeof_double) (memset_value c) @ drop (nbytes div sizeof_double) buf"

section \<open>The node\<close>

text \<open>
  Modelled from the spec: the struct \<^verbatim>\<open>Node\<close> is declared in a header that is not
  among the sources. Its fields are the ones the code uses: \<^verbatim>\<open>numFeatures\<close>,
  \<^verbatim>\<open>weights\<close> (the spec's weight vector of length numFeatures + 1, bias last),
  \<^verbatim>\<open>inputs\<close> (a pointer to the row last activated, here its index in the feature
  buffer) and \<^verbatim>\<open>output\<close>. \<^verbatim>\<open>initNode\<close> leaves \<^verbatim>\<open>inputs\<close> and \<^verbatim>\<open>output\<close>
  uninitialised; the model puts 0 there, and \<^verbatim>\<open>activate\<close> writes both before any read.
\<close>

record Node =
  numFeatures :: nat
  weights :: "real list"
  inputs :: nat
  "output" :: real

definition initNode :: "nat \<Rightarrow> Node" where
  "initNode numFeatures' =
     (let n = (numFeatures' + 1) mod 2 ^ 32
      in \<lparr>numFeatures = numFeatures',
          weights = memset_doubles (malloc_doubles n) 1 (n * sizeof_double),
          inputs = 0,
          output = 0\<rparr>)"

text \<open>
  \<^verbatim>\<open>activate\<close> takes the node by pointer and returns a double: the model takes the
  feature buffer \<open>mem\<close> that \<open>inputArr\<close> points into and returns the node after the call
  with the result.
\<close>

definition activate :: "real list \<Rightarrow> Node \<Rightarrow> nat \<Rightarrow> Node \<times> real" where
  "activate mem node0 inputArr =
     (let linearRes0 = weights node0 ! numFeatures node0;
          node1 = node0\<lparr>inputs := inputArr\<rparr>;
          numFeatures' = numFeatures node1;
          linearRes = fold (\<lambda>i linearRes. linearRes + weights node1 ! i * mem ! (inputs node1 + i))
                        [0..<numFeatures'] linearRes0;
          node2 = node1\<lparr>output := 1 / (1 + exp (- linearRes))\<rparr>
      in (node2, output node2))"

definition computeCost :: "real \<Rightarrow> 16 word \<Rightarrow> real" where
  "computeCost hRes y = (if y \<noteq> 0 then - ln hRes else - ln (1 - hRes))"

section \<open>The gradient descent loop of main\<close>

text \<open>
  The variables of \<^verbatim>\<open>main\<close> that the loop reads or writes. \<open>numFeaturesM\<close> is the local
  \<^verbatim>\<open>numFeatures\<close> of \<^verbatim>\<open>main\<close> (the node has a field of the same name).
  \<^verbatim>\<open>costSumNew\<close> is declared inside the loop body and is passed along the row loop.
\<close>

record main_state =
  featureVec :: "NumericAttr list"
  featureBuff :: "real list"
  classIndexBuff :: "16 word list"
  numInst :: nat
  numFeaturesM :: nat
  node :: Node
  iter :: nat
  costSumPre :: real
  deltaCostSum :: real
  batchArr :: "real list"

definition maxIter :: nat where
  "maxIter = 200"

definition alpha :: real where
  "alpha = 50"

text \<open>The body of the loop over the instances, lines 100 to 104, for row \<open>i\<close>.\<close>

definition train_row :: "nat \<Rightarrow> main_state \<times> real \<Rightarrow> main_state \<times> real" where
  "train_row i = (\<lambda>(st0, costSumNew0).
     let (node1, hRes) =
           activate (featureBuff st0) (node st0) ((i * numFeaturesM st0) mod 2 ^ 32);
         st1 = st0\<lparr>node := node1\<rparr>;
         diff = hRes - real (unat (classIndexBuff st1 ! i));
         costSumNew = costSumNew0 + computeCost hRes (classIndexBuff st1 ! i);
         st2 = st1\<lparr>batchArr :=
                 fold (\<lambda>j b. b[j := b ! j + diff * featureBuff st1 ! (inputs (node st1) + j)])
                   [0..<numFeaturesM st1] (batchArr st1)\<rparr>
     in (st2, costSumNew))"

text \<open>The loop that updates the weights, lines 114 and 115.\<close>

definition update_weights :: "main_state \<Rightarrow> real list" where
  "update_weights st =
     fold (\<lambda>j w. w[j := w ! j - alpha / real (numInst st) * batchArr st ! j])
       [0..<numFeaturesM st] (weights (node st))"

text \<open>One pass through the body of the do-while loop, lines 95 to 117.\<close>

definition gradient_descent_iteration :: "main_state \<Rightarrow> main_state" where
  "gradient_descent_iteration st0 =
     (let st1 = st0\<lparr>batchArr :=
                  memset_doubles (batchArr st0) 0 (numFeaturesM st0 * sizeof_double)\<rparr>;
          (st2, costSumNew) = fold train_row [0..<numInst st1] (st1, 0);
          st3 = st2\<lparr>deltaCostSum := costSumPre st2 - costSumNew\<rparr>;
          st4 = st3\<lparr>costSumPre := costSumNew\<rparr>;
          st5 = st4\<lparr>node := (node st4)\<lparr>weights := update_weights st4\<rparr>\<rparr>
      in st5\<lparr>iter := (iter st5 + 1) mod 2 ^ 32\<rparr>)"

text \<open>The condition of the do-while loop, line 119, on the state at the end of the body.\<close>

definition continue_loop :: "main_state \<Rightarrow> bool" where
  "continue_loop st \<longleftrightarrow> iter st = 1 \<or> (deltaCostSum st > 1 \<and> iter st < maxIter)"

text \<open>
  The do-while loop. \<open>train_states\<close> lists the state at the end of each pass through
  the body, in order; \<open>train\<close> is the state when the loop is left. The recursion ends
  because \<open>iter\<close> grows by one per pass and no pass follows one that ends with
  \<open>iter\<close> at \<open>maxIter\<close> or above (unless \<open>iter\<close> is 1).
\<close>

lemma iter_train_row [simp]: "iter (fst (train_row i p)) = iter (fst p)"
  by (simp add: train_row_def Let_def split: prod.splits)

lemma iter_train_rows [simp]: "iter (fst (fold train_row js p)) = iter (fst p)"
  by (induction js arbitrary: p) simp_all

lemma iter_gradient_descent_iteration:
  "iter (gradient_descent_iteration st) = (iter st + 1) mod 2 ^ 32"
proof -
  obtain st2 c where r: "fold train_row [0..<numInst st]
      (st\<lparr>batchArr := memset_doubles (batchArr st) 0 (numFeaturesM st * sizeof_double)\<rparr>, 0)
      = (st2, c)"
    by (cases "fold train_row [0..<numInst st]
      (st\<lparr>batchArr := memset_doubles (batchArr st) 0 (numFeaturesM st * sizeof_double)\<rparr>, 0)")
  have "iter st2 = iter st"
    using iter_train_rows [of "[0..<numInst st]"
      "(st\<lparr>batchArr := memset_doubles (batchArr st) 0 (numFeaturesM st * sizeof_double)\<rparr>, 0)"]
    by (simp add: r)
  then show ?thesis
    by (simp add: gradient_descent_iteration_def Let_def r)
qed

definition passes_left :: "main_state \<Rightarrow> nat" where
  "passes_left st =
     (let k = iter st mod 2 ^ 32
      in if k = 2 ^ 32 - 1 then 203 else if k = 0 then 201 else maxIter - k)"

lemma passes_left_decreases:
  assumes "continue_loop (gradient_descent_iteration st)"
  shows "passes_left (gradient_descent_iteration st) < passes_left st"
proof -
  define k where "k = iter st mod 2 ^ 32"
  have k: "k < 2 ^ 32" by (simp add: k_def)
  have it: "iter (gradient_descent_iteration st) = (k + 1) mod 2 ^ 32"
    by (simp add: iter_gradient_descent_iteration k_def mod_Suc_eq)
  have pl: "passes_left st = (if k = 2 ^ 32 - 1 then 203 else if k = 0 then 201 else maxIter - k)"
    by (simp add: passes_left_def k_def Let_def)
  have pl': "passes_left (gradient_descent_iteration st) =
      (if (k + 1) mod 2 ^ 32 = 2 ^ 32 - 1 then 203
       else if (k + 1) mod 2 ^ 32 = 0 then 201 else maxIter - (k + 1) mod 2 ^ 32)"
    by (simp add: passes_left_def it Let_def)
  consider "k = 2 ^ 32 - 1" | "k = 0" | "0 < k" "k < 2 ^ 32 - 1"
    using k by linarith
  then show ?thesis
  proof cases
    case 1
    then show ?thesis by (simp add: pl pl')
  next
    case 2
    then show ?thesis by (simp add: pl pl' maxIter_def)
  next
    case 3
    then have it': "iter (gradient_descent_iteration st) = k + 1"
      by (simp add: it)
    with assms 3 have "k + 1 < maxIter"
      by (simp add: continue_loop_def)
    with 3 show ?thesis
      by (simp add: pl pl' maxIter_def)
  qed
qed

function train_states :: "main_state \<Rightarrow> main_state list" where
  "train_states st =
     (let st' = gradient_descent_iteration st
      in if continue_loop st' then st' # train_states st' else [st'])"
  by pat_completeness auto
termination
  by (relation "measure passes_left") (simp_all add: passes_left_decreases)

function train :: "main_state \<Rightarrow> main_state" where
  "train st =
     (let st' = gradient_descent_iteration st
      in if continue_loop st' then train st' else st')"
  by pat_completeness auto
termination
  by (relation "measure passes_left") (simp_all add: passes_left_decreases)

declare train_states.simps [simp del] train.simps [simp del]

text \<open>
  \<^verbatim>\<open>main\<close> up to the loop, lines 72 to 86, from what the importer hands over: the
  descriptors, the feature buffer, the class indices and the number of instances.
  \<open>main_init\<close> is the state on entry to the loop, \<open>main\<close> the state when it is left;
  after the loop \<^verbatim>\<open>main\<close> only prints the elapsed time.
\<close>

definition main_init :: "NumericAttr list \<Rightarrow> real list \<Rightarrow> 16 word list \<Rightarrow> nat \<Rightarrow> main_state" where
  "main_init featureVec0 featureBuff0 classIndexBuff0 numInst0 =
     (let numFeatures0 = length featureVec0 mod 2 ^ 32
      in \<lparr>featureVec = featureVec0,
          featureBuff = normalize featureVec0 featureBuff0 numInst0,
          classIndexBuff = classIndexBuff0,
          numInst = numInst0,
          numFeaturesM = numFeatures0,
          node = initNode numFeatures0,
          iter = 0,
          costSumPre = 0,
          deltaCostSum = 0,
          batchArr = malloc_doubles numFeatures0\<rparr>)"

definition main :: "NumericAttr list \<Rightarrow> real list \<Rightarrow> 16 word list \<Rightarrow> nat \<Rightarrow> main_state" where
  "main featureVec0 featureBuff0 classIndexBuff0 numInst0 =
     train (main_init featureVec0 featureBuff0 classIndexBuff0 numInst0)"

text \<open>
  The spec's words for the normalizer: with \<open>range = max - min\<close> of the column, a value
  is left as it is when the range is 0 and replaced by \<open>(v - mean) / range\<close> otherwise.
\<close>

definition normalized_value :: "NumericAttr \<Rightarrow> real \<Rightarrow> real" where
  "normalized_value a v =
     (if max_attr a - min_attr a = 0 then v else (v - mean a) / (max_attr a - min_attr a))"

text \<open>
  The spec's words for the activation: the linear combination
  \<open>weights[numFeatures] + \<Sum>\<^sub>i weights[i] * row[i]\<close> of the row at \<open>p\<close>, and the logistic
  sigmoid of it.
\<close>

definition sigmoid :: "real \<Rightarrow> real" where
  "sigmoid x = 1 / (1 + exp (- x))"

definition linear :: "real list \<Rightarrow> nat \<Rightarrow> real list \<Rightarrow> nat \<Rightarrow> real" where
  "linear w nF mem p = w ! nF + (\<Sum>i<nF. w ! i * mem ! (p + i))"

text \<open>
  The buffers have the sizes the program gives them: the node has the number of features
  of \<^verbatim>\<open>main\<close> and \<open>numFeatures + 1\<close> weights, the feature buffer is
  \<open>numInst \<times> numFeatures\<close> with indices that fit an \<^verbatim>\<open>unsigned int\<close>, there is one class
  index per instance and one gradient cell per feature.
\<close>

definition wf_state :: "main_state \<Rightarrow> bool" where
  "wf_state st \<longleftrightarrow>
     numFeatures (node st) = numFeaturesM st \<and>
     length (weights (node st)) = numFeaturesM st + 1 \<and>
     length (featureBuff st) = numInst st * numFeaturesM st \<and>
     length (classIndexBuff st) = numInst st \<and>
     numInst st * numFeaturesM st \<le> 2 ^ 32 \<and>
     length (batchArr st) = numFeaturesM st"

text \<open>
  What the row loop computes for row \<open>i\<close> in state \<open>st\<close>: the value \<^verbatim>\<open>hRes\<close> returned by
  \<^verbatim>\<open>activate\<close> and the difference \<^verbatim>\<open>diff\<close> to the class index.
\<close>

definition hRes_row :: "main_state \<Rightarrow> nat \<Rightarrow> real" where
  "hRes_row st i =
     snd (activate (featureBuff st) (node st) ((i * numFeaturesM st) mod 2 ^ 32))"

definition diff_row :: "main_state \<Rightarrow> nat \<Rightarrow> real" where
  "diff_row st i = hRes_row st i - real (unat (classIndexBuff st ! i))"

text \<open>
  The spec's words for one iteration: the cost is the sum over the rows, in stored order,
  of \<^verbatim>\<open>computeCost\<close>, and cell \<open>k\<close> of the gradient is the sum over the rows of
  \<open>diff * row[k]\<close>; both start from zero.
\<close>

definition cost_sum :: "main_state \<Rightarrow> real" where
  "cost_sum st = (\<Sum>j<numInst st. computeCost (hRes_row st j) (classIndexBuff st ! j))"

definition gradient :: "main_state \<Rightarrow> real list" where
  "gradient st =
     map (\<lambda>k. \<Sum>j<numInst st. diff_row st j * featureBuff st ! (j * numFeaturesM st + k))
       [0..<numFeaturesM st]"

text \<open>
  The weights after the update loop, lines 114 and 115: every feature index \<open>k\<close> moves by
  \<open>alpha / numInst * gradient[k]\<close>; the loop does not reach index \<open>numFeatures\<close>.
\<close>

definition new_weights :: "main_state \<Rightarrow> real list" where
  "new_weights st =
     map (\<lambda>k. if k < numFeaturesM st
              then weights (node st) ! k - alpha / real (numInst st) * gradient st ! k
              else weights (node st) ! k)
       [0..<numFeaturesM st + 1]"

section \<open>Rounded arithmetic\<close>

text \<open>
  Where a property depends on rounding, the arithmetic of \<^verbatim>\<open>activate\<close> is also modelled
  with the results IEEE 754 binary64 gives in round-to-nearest-even mode. A finite double
  is the real number it denotes. \<open>double_round x\<close> is the double nearest to \<open>x\<close>: for
  \<open>2\<^sup>e \<le> \<bar>x\<bar> < 2\<^sup>e\<^sup>+\<^sup>1\<close> the multiple of \<open>2\<^sup>e\<^sup>-\<^sup>5\<^sup>2\<close> nearest to \<open>x\<close>, the even one of two
  nearest. It is \<open>None\<close> outside the normal range, that is when the result is \<open>2\<^sup>1\<^sup>0\<^sup>2\<^sup>4\<close> or
  more in magnitude (overflow to infinity) or \<open>x\<close> is below \<open>2\<^sup>-\<^sup>1\<^sup>0\<^sup>2\<^sup>2\<close> in magnitude
  (subnormal): those cases, infinities and NaN are not modelled. Each operation of the
  source is the exact operation followed by \<open>double_round\<close>; \<^verbatim>\<open>exp\<close> is taken as correctly
  rounded.
\<close>

definition round_half_even :: "real \<Rightarrow> int" where
  "round_half_even y =
     (let f = \<lfloor>y\<rfloor>
      in if y - of_int f < 1 / 2 then f
         else if 1 / 2 < y - of_int f then f + 1
         else if even f then f else f + 1)"

definition double_round :: "real \<Rightarrow> real option" where
  "double_round x =
     (if x = 0 then Some 0
      else let e = \<lfloor>log 2 \<bar>x\<bar>\<rfloor>
           in if e < - 1022 then None
              else let ulp = 2 powr (of_int e - 52);
                       y = of_int (round_half_even (x / ulp)) * ulp
                   in if 2 ^ 1024 \<le> \<bar>y\<bar> then None else Some y)"

definition fadd :: "real \<Rightarrow> real \<Rightarrow> real option" where
  "fadd a b = double_round (a + b)"

definition fmul :: "real \<Rightarrow> real \<Rightarrow> real option" where
  "fmul a b = double_round (a * b)"

definition fdiv :: "real \<Rightarrow> real \<Rightarrow> real option" where
  "fdiv a b = (if b = 0 then None else double_round (a / b))"

definition fexp :: "real \<Rightarrow> real option" where
  "fexp a = double_round (exp a)"

text \<open>
  \<^verbatim>\<open>activate\<close> in rounded arithmetic: the same statements as in \<open>activate\<close>, with the
  rounded operations; the result is \<open>None\<close> when an operation leaves the modelled range.
  \<open>node_sat\<close> is a node with one feature, weight 60 and bias 0.
\<close>

definition activate_double :: "real list \<Rightarrow> Node \<Rightarrow> nat \<Rightarrow> real option" where
  "activate_double mem node0 inputArr =
     (let linearRes0 = Some (weights node0 ! numFeatures node0);
          node1 = node0\<lparr>inputs := inputArr\<rparr>;
          numFeatures' = numFeatures node1;
          linearRes =
            fold (\<lambda>i linearRes.
                    Option.bind linearRes (\<lambda>l.
                    Option.bind (fmul (weights node1 ! i) (mem ! (inputs node1 + i))) (fadd l)))
              [0..<numFeatures'] linearRes0
      in Option.bind linearRes (\<lambda>l.
         Option.bind (fexp (- l)) (\<lambda>e.
         Option.bind (fadd 1 e) (\<lambda>s. fdiv 1 s))))"

definition node_sat :: Node where
  "node_sat = \<lparr>numFeatures = 1, weights = [60, 0], inputs = 0, output = 0\<rparr>"

text \<open>A small dataset for concrete runs: three rows, two features, the second constant.\<close>

definition fv2 :: "NumericAttr list" where
  "fv2 = [\<lparr>name = ''f1'', min_attr = 1, max_attr = 5, mean = 3\<rparr>,
          \<lparr>name = ''f2'', min_attr = 2, max_attr = 2, mean = 2\<rparr>]"

text \<open>
  The rows \<open>(1, 2)\<close>, \<open>(3, 2)\<close>, \<open>(5, 2)\<close> of the features \<open>f1\<close>, \<open>f2\<close> with class indices
  0, 1, 1; \<open>ex_init\<close> is the state of \<^verbatim>\<open>main\<close> on entry to the loop for them.
\<close>

definition ex_init :: main_state where
  "ex_init = main_init fv2 [1, 2, 3, 2, 5, 2] [0, 1, 1] 3"

text \<open>
  A dataset whose only feature is constantly 0, two rows with class indices 0 and 1, and
  the state of \<^verbatim>\<open>main\<close> on entry to the loop for it.
\<close>

definition fv0 :: "NumericAttr list" where
  "fv0 = [\<lparr>name = ''f1'', min_attr = 0, max_attr = 0, mean = 0\<rparr>]"

definition ex0_init :: main_state where
  "ex0_init = main_init fv0 [0, 0] [0, 1] 2"

text \<open>
  A dataset with one feature and the four rows \<open>- 1\<close>, \<open>1\<close>, \<open>- 1\<close>, \<open>1\<close> with class indices
  0, 1, 0, 1, and the state of \<^verbatim>\<open>main\<close> on entry to the loop for it.
\<close>

definition fv4 :: "NumericAttr list" where
  "fv4 = [\<lparr>name = ''f1'', min_attr = - 1, max_attr = 1, mean = 0\<rparr>]"

definition ex4_init :: main_state where
  "ex4_init = main_init fv4 [- 1, 1, - 1, 1] [0, 1, 0, 1] 4"

section \<open>Loops over index ranges\<close>

text \<open>
  The for loops of the source run an index over \<open>[0..<n]\<close> and either add to a scalar
  or overwrite one cell of an array per step.
\<close>

lemma fold_add_upt:
  fixes a :: real
  shows "fold (\<lambda>i acc. acc + f i) [0..<n] a = a + (\<Sum>i<n. f i)"
  by (induction n) simp_all

lemma length_fold_update [simp]:
  "length (fold (\<lambda>j b. b[f j := g j b]) js b) = length b"
  by (induction js arbitrary: b) simp_all

lemma fold_update_upt_nth:
  "k < length b \<Longrightarrow>
   fold (\<lambda>j b. b[j := g j (b ! j)]) [0..<m] b ! k = (if k < m then g k (b ! k) else b ! k)"
proof (induction m arbitrary: k)
  case 0
  then show ?case by simp
next
  case (Suc m)
  show ?case
  proof (cases "k = m")
    case True
    with Suc.prems Suc.IH [of m] show ?thesis by simp
  next
    case False
    with Suc.prems Suc.IH [of k] show ?thesis by (simp add: nth_list_update)
  qed
qed

lemma fold_update_other:
  "k \<notin> f ` set js \<Longrightarrow> fold (\<lambda>j b. b[f j := g j b]) js b ! k = b ! k"
  by (induction js arbitrary: b) simp_all

lemma fold_update_hit:
  assumes "inj_on f {..<m}" and "j < m" and "f j < length b"
  shows "fold (\<lambda>j b. b[f j := g (b ! f j)]) [0..<m] b ! f j = g (b ! f j)"
  using assms
proof (induction m)
  case 0
  then show ?case by simp
next
  case (Suc m)
  have inj: "inj_on f {..<m}"
    using Suc.prems(1) by (rule inj_on_subset) auto
  show ?case
  proof (cases "j = m")
    case True
    have "f m \<notin> f ` set [0..<m]"
      using inj_onD [OF Suc.prems(1), of m] by fastforce
    then have "fold (\<lambda>j b. b[f j := g (b ! f j)]) [0..<m] b ! f m = b ! f m"
      by (rule fold_update_other)
    with True Suc.prems(3) show ?thesis by simp
  next
    case False
    with Suc.prems have jm: "j < m" by simp
    have ne: "f m \<noteq> f j"
      using inj_onD [OF Suc.prems(1), of m j] jm by fastforce
    from Suc.IH [OF inj jm Suc.prems(3)] ne show ?thesis by simp
  qed
qed

text \<open>Row-major indexing: cell \<open>(j, i)\<close> of an \<open>n \<times> w\<close> matrix is element \<open>j * w + i\<close>.\<close>

lemma cell_index_less:
  fixes i j n w :: nat
  assumes "i < w" and "j < n"
  shows "j * w + i < n * w"
proof -
  have "j * w + i < Suc j * w" using assms(1) by simp
  also have "\<dots> \<le> n * w" using assms(2) by (intro mult_le_mono1) simp
  finally show ?thesis .
qed

lemma cell_index_eq:
  fixes i i' j j' w :: nat
  assumes "i < w" and "i' < w"
  shows "j * w + i = j' * w + i' \<longleftrightarrow> j = j' \<and> i = i'"
proof
  assume eq: "j * w + i = j' * w + i'"
  have "(j * w + i) div w = j" "(j' * w + i') div w = j'"
    using assms by simp_all
  moreover have "(j * w + i) mod w = i" "(j' * w + i') mod w = i'"
    using assms by simp_all
  ultimately show "j = j' \<and> i = i'" using eq by metis
qed simp

section \<open>The row loop\<close>

lemma activate_eq:
  "activate mem nd p =
     (nd\<lparr>inputs := p, output := sigmoid (linear (weights nd) (numFeatures nd) mem p)\<rparr>,
      sigmoid (linear (weights nd) (numFeatures nd) mem p))"
  by (simp add: activate_def Let_def fold_add_upt sigmoid_def linear_def)

lemma row_offset:
  fixes i n w :: nat
  assumes "i < n" and "n * w \<le> 2 ^ 32"
  shows "(i * w) mod 2 ^ 32 = i * w"
proof (cases "w = 0")
  case True
  then show ?thesis by simp
next
  case False
  then have "0 < w" by simp
  then have "i * w < n * w" using assms(1) by simp
  then have "i * w < 2 ^ 32" using assms(2) by (rule less_le_trans)
  then show ?thesis by simp
qed

lemma train_row_eq:
  "train_row i (st, c) =
     (st\<lparr>node := (node st)\<lparr>inputs := (i * numFeaturesM st) mod 2 ^ 32, output := hRes_row st i\<rparr>,
         batchArr := fold (\<lambda>j b. b[j := b ! j + (hRes_row st i - real (unat (classIndexBuff st ! i))) *
                      featureBuff st ! ((i * numFeaturesM st) mod 2 ^ 32 + j)])
                    [0..<numFeaturesM st] (batchArr st)\<rparr>,
      c + computeCost (hRes_row st i) (classIndexBuff st ! i))"
  by (simp add: train_row_def hRes_row_def activate_eq Let_def)

lemma hRes_row_frame [simp]:
  "hRes_row (st\<lparr>node := (node st)\<lparr>inputs := a, output := b\<rparr>, batchArr := B\<rparr>) i = hRes_row st i"
  by (simp add: hRes_row_def activate_eq)

lemma train_rows:
  assumes "m \<le> numInst st" and "numInst st * numFeaturesM st \<le> 2 ^ 32"
    and "length (batchArr st) = numFeaturesM st"
  shows "\<exists>a b B. fold train_row [0..<m] (st, c) =
             (st\<lparr>node := (node st)\<lparr>inputs := a, output := b\<rparr>, batchArr := B\<rparr>,
              c + (\<Sum>j<m. computeCost (hRes_row st j) (classIndexBuff st ! j))) \<and>
           length B = numFeaturesM st \<and>
           (\<forall>k<numFeaturesM st. B ! k = batchArr st ! k +
              (\<Sum>j<m. diff_row st j * featureBuff st ! (j * numFeaturesM st + k)))"
  using assms(1)
proof (induction m)
  case 0
  have "fold train_row [0..<0] (st, c) =
      (st\<lparr>node := (node st)\<lparr>inputs := inputs (node st), output := output (node st)\<rparr>,
          batchArr := batchArr st\<rparr>, c + (\<Sum>j<0. computeCost (hRes_row st j) (classIndexBuff st ! j)))"
    by simp
  with assms(3) show ?case by (intro exI [of _ "inputs (node st)"] exI [of _ "output (node st)"] exI [of _ "batchArr st"]) simp
next
  case (Suc m)
  then have m: "m < numInst st" by simp
  with Suc.IH obtain a b B where
    R: "fold train_row [0..<m] (st, c) =
          (st\<lparr>node := (node st)\<lparr>inputs := a, output := b\<rparr>, batchArr := B\<rparr>,
           c + (\<Sum>j<m. computeCost (hRes_row st j) (classIndexBuff st ! j)))"
    and lenB: "length B = numFeaturesM st"
    and B: "\<And>k. k < numFeaturesM st \<Longrightarrow> B ! k = batchArr st ! k +
              (\<Sum>j<m. diff_row st j * featureBuff st ! (j * numFeaturesM st + k))"
    by auto
  have off: "(m * numFeaturesM st) mod 4294967296 = m * numFeaturesM st"
    using row_offset [OF m assms(2)] by simp
  let ?B' = "fold (\<lambda>j b. b[j := b ! j + diff_row st m * featureBuff st ! (m * numFeaturesM st + j)])
               [0..<numFeaturesM st] B"
  have step: "fold train_row [0..<Suc m] (st, c) =
      (st\<lparr>node := (node st)\<lparr>inputs := m * numFeaturesM st, output := hRes_row st m\<rparr>,
          batchArr := ?B'\<rparr>,
       c + (\<Sum>j<Suc m. computeCost (hRes_row st j) (classIndexBuff st ! j)))"
    by (simp add: R train_row_eq off diff_row_def)
  have len': "length ?B' = numFeaturesM st" by (simp add: lenB)
  have nth': "?B' ! k = batchArr st ! k +
              (\<Sum>j<Suc m. diff_row st j * featureBuff st ! (j * numFeaturesM st + k))"
    if "k < numFeaturesM st" for k
    using that
      fold_update_upt_nth [of k B "\<lambda>j v. v + diff_row st m * featureBuff st ! (m * numFeaturesM st + j)"
        "numFeaturesM st"]
    by (simp add: lenB B)
  show ?case
    using step len' nth' by blast
qed

lemma fold_invariant:
  assumes "P s" and "\<And>x s. P s \<Longrightarrow> P (f x s)"
  shows "P (fold f xs s)"
  using assms(1) by (induction xs arbitrary: s) (simp_all add: assms(2))

lemma train_rows_shape:
  "\<exists>a b B c'. fold train_row js (st, c) =
     (st\<lparr>node := (node st)\<lparr>inputs := a, output := b\<rparr>, batchArr := B\<rparr>, c')"
proof (rule fold_invariant)
  have "(st, c) = (st\<lparr>node := (node st)\<lparr>inputs := inputs (node st), output := output (node st)\<rparr>,
      batchArr := batchArr st\<rparr>, c)"
    by simp
  then show "\<exists>a b B c'. (st, c) =
     (st\<lparr>node := (node st)\<lparr>inputs := a, output := b\<rparr>, batchArr := B\<rparr>, c')"
    by blast
next
  fix i and p :: "main_state \<times> real"
  assume "\<exists>a b B c'. p = (st\<lparr>node := (node st)\<lparr>inputs := a, output := b\<rparr>, batchArr := B\<rparr>, c')"
  then obtain a b B c' where p: "p = (st\<lparr>node := (node st)\<lparr>inputs := a, output := b\<rparr>, batchArr := B\<rparr>, c')"
    by blast
  let ?st = "st\<lparr>node := (node st)\<lparr>inputs := a, output := b\<rparr>, batchArr := B\<rparr>"
  have "train_row i p =
     (st\<lparr>node := (node st)\<lparr>inputs := (i * numFeaturesM st) mod 2 ^ 32, output := hRes_row st i\<rparr>,
         batchArr := batchArr (fst (train_row i (?st, c')))\<rparr>,
      snd (train_row i (?st, c')))"
    unfolding p train_row_eq by simp
  then show "\<exists>a b B c'. train_row i p =
     (st\<lparr>node := (node st)\<lparr>inputs := a, output := b\<rparr>, batchArr := B\<rparr>, c')"
    by - (intro exI, assumption)
qed

lemma rcat_zeros: "(word_rcat (replicate 8 (0::8 word)) :: 64 word) = 0"
  by (simp add: word_rcat_def eval_nat_numeral)

lemma rcat_ones: "(word_rcat (replicate 8 (1::8 word)) :: 64 word) = 72340172838076673"
  by (simp add: word_rcat_def eval_nat_numeral)

lemma memset_value_0: "memset_value 0 = 0"
  by (simp add: memset_value_def double_value_def sizeof_double_def rcat_zeros)

lemma memset_value_1: "memset_value 1 = (2 ^ 52 + 282578800148737) * 2 ^ 16 / 2 ^ 1075"
  by (simp add: memset_value_def double_value_def sizeof_double_def rcat_ones Let_def)

lemma memset_doubles_all:
  "length buf = n \<Longrightarrow> memset_doubles buf c (n * sizeof_double) = replicate n (memset_value c)"
  by (simp add: memset_doubles_def sizeof_double_def)

lemma memset_zero:
  "length buf = n \<Longrightarrow> memset_doubles buf 0 (n * sizeof_double) = replicate n 0"
  by (simp add: memset_doubles_all memset_value_0)

lemma gradient_descent_iteration_shape:
  "\<exists>a b B c W. gradient_descent_iteration st =
     st\<lparr>batchArr := B, node := (node st)\<lparr>inputs := a, output := b, weights := W\<rparr>,
        deltaCostSum := costSumPre st - c, costSumPre := c, iter := (iter st + 1) mod 2 ^ 32\<rparr>"
proof -
  let ?st1 = "st\<lparr>batchArr := memset_doubles (batchArr st) 0 (numFeaturesM st * sizeof_double)\<rparr>"
  obtain a b B c where r: "fold train_row [0..<numInst st] (?st1, 0) =
      (?st1\<lparr>node := (node ?st1)\<lparr>inputs := a, output := b\<rparr>, batchArr := B\<rparr>, c)"
    using train_rows_shape [of "[0..<numInst st]" ?st1 0] by blast
  let ?W = "update_weights (st\<lparr>node := (node st)\<lparr>inputs := a, output := b\<rparr>,
                           batchArr := B, deltaCostSum := costSumPre st - c,
                           costSumPre := c\<rparr>)"
  have "gradient_descent_iteration st =
     st\<lparr>batchArr := B, node := (node st)\<lparr>inputs := a, output := b, weights := ?W\<rparr>,
        deltaCostSum := costSumPre st - c, costSumPre := c, iter := (iter st + 1) mod 2 ^ 32\<rparr>"
    by (simp add: gradient_descent_iteration_def r Let_def)
  then show ?thesis by - (intro exI, assumption)
qed

section \<open>One iteration\<close>

lemma hRes_row_batchArr [simp]: "hRes_row (st\<lparr>batchArr := B\<rparr>) i = hRes_row st i"
  by (simp add: hRes_row_def)

lemma diff_row_batchArr [simp]: "diff_row (st\<lparr>batchArr := B\<rparr>) i = diff_row st i"
  by (simp add: diff_row_def)

lemma gradient_descent_iteration_exact:
  assumes "wf_state st"
  shows "\<exists>a b. gradient_descent_iteration st =
     st\<lparr>batchArr := gradient st,
        node := (node st)\<lparr>inputs := a, output := b, weights := new_weights st\<rparr>,
        deltaCostSum := costSumPre st - cost_sum st, costSumPre := cost_sum st,
        iter := (iter st + 1) mod 2 ^ 32\<rparr>"
proof -
  from assms have nf: "numFeatures (node st) = numFeaturesM st"
    and lw: "length (weights (node st)) = numFeaturesM st + 1"
    and fit: "numInst st * numFeaturesM st \<le> 2 ^ 32"
    and lb: "length (batchArr st) = numFeaturesM st"
    by (simp_all add: wf_state_def)
  let ?st1 = "st\<lparr>batchArr := replicate (numFeaturesM st) 0\<rparr>"
  have st1: "st\<lparr>batchArr := memset_doubles (batchArr st) 0 (numFeaturesM st * sizeof_double)\<rparr> = ?st1"
    by (simp add: memset_zero [OF lb])
  obtain a b B where
    R: "fold train_row [0..<numInst st] (?st1, 0) =
          (?st1\<lparr>node := (node ?st1)\<lparr>inputs := a, output := b\<rparr>, batchArr := B\<rparr>,
           0 + (\<Sum>j<numInst st. computeCost (hRes_row ?st1 j) (classIndexBuff ?st1 ! j)))"
    and lenB: "length B = numFeaturesM st"
    and B: "\<And>k. k < numFeaturesM st \<Longrightarrow> B ! k = batchArr ?st1 ! k +
              (\<Sum>j<numInst st. diff_row ?st1 j * featureBuff ?st1 ! (j * numFeaturesM ?st1 + k))"
    using train_rows [of "numInst st" ?st1 0] fit by auto
  have Bg: "B = gradient st"
    by (rule nth_equalityI) (simp_all add: lenB gradient_def B)
  let ?st4 = "st\<lparr>node := (node st)\<lparr>inputs := a, output := b\<rparr>, batchArr := gradient st,
      deltaCostSum := costSumPre st - cost_sum st, costSumPre := cost_sum st\<rparr>"
  have W: "update_weights ?st4 = new_weights st"
  proof (rule nth_equalityI)
    show "length (update_weights ?st4) = length (new_weights st)"
      by (simp add: update_weights_def new_weights_def lw)
  next
    fix k assume "k < length (update_weights ?st4)"
    then have k: "k < numFeaturesM st + 1" by (simp add: update_weights_def lw)
    then have "k < length (weights (node st))" by (simp add: lw)
    from fold_update_upt_nth [OF this,
        of "\<lambda>j v. v - alpha / real (numInst st) * gradient st ! j" "numFeaturesM st"] k
    show "update_weights ?st4 ! k = new_weights st ! k"
      by (simp add: update_weights_def new_weights_def del: upt_Suc)
  qed
  have "gradient_descent_iteration st =
     st\<lparr>batchArr := gradient st,
        node := (node st)\<lparr>inputs := a, output := b, weights := new_weights st\<rparr>,
        deltaCostSum := costSumPre st - cost_sum st, costSumPre := cost_sum st,
        iter := (iter st + 1) mod 2 ^ 32\<rparr>"
    using W by (simp add: gradient_descent_iteration_def st1 R Let_def Bg cost_sum_def)
  then show ?thesis by - (intro exI, assumption)
qed

section \<open>The do-while loop\<close>

lemma gradient_descent_iteration_frame:
  "featureVec (gradient_descent_iteration st) = featureVec st"
  "featureBuff (gradient_descent_iteration st) = featureBuff st"
  "classIndexBuff (gradient_descent_iteration st) = classIndexBuff st"
  "numInst (gradient_descent_iteration st) = numInst st"
  "numFeaturesM (gradient_descent_iteration st) = numFeaturesM st"
  "numFeatures (node (gradient_descent_iteration st)) = numFeatures (node st)"
  "deltaCostSum (gradient_descent_iteration st) =
     costSumPre st - costSumPre (gradient_descent_iteration st)"
  using gradient_descent_iteration_shape [of st] by auto

lemma wf_gradient_descent_iteration:
  assumes "wf_state st"
  shows "wf_state (gradient_descent_iteration st)"
proof -
  from gradient_descent_iteration_exact [OF assms] obtain a b where
    "gradient_descent_iteration st =
     st\<lparr>batchArr := gradient st,
        node := (node st)\<lparr>inputs := a, output := b, weights := new_weights st\<rparr>,
        deltaCostSum := costSumPre st - cost_sum st, costSumPre := cost_sum st,
        iter := (iter st + 1) mod 2 ^ 32\<rparr>"
    by blast
  with assms show ?thesis
    by (simp add: wf_state_def gradient_def new_weights_def)
qed

lemma train_states_unfold:
  "train_states st =
     gradient_descent_iteration st #
       (if continue_loop (gradient_descent_iteration st)
        then train_states (gradient_descent_iteration st) else [])"
  by (subst train_states.simps) (simp add: Let_def)

lemma train_unfold:
  "train st =
     (if continue_loop (gradient_descent_iteration st)
      then train (gradient_descent_iteration st) else gradient_descent_iteration st)"
  by (subst train.simps) (simp add: Let_def)

lemma train_states_not_Nil: "train_states st \<noteq> []"
  by (subst train_states_unfold) simp

lemma hd_train_states: "train_states st ! 0 = gradient_descent_iteration st"
  by (subst train_states_unfold) simp

lemma train_last: "train st = last (train_states st)"
proof (induction st rule: train_states.induct)
  case (1 st)
  show ?case
  proof (cases "continue_loop (gradient_descent_iteration st)")
    case True
    with 1 [OF refl True] show ?thesis
      by (subst train_unfold, subst train_states_unfold) (simp add: train_states_not_Nil)
  next
    case False
    then show ?thesis
      by (subst train_unfold, subst train_states_unfold) simp
  qed
qed

lemma train_states_next:
  "Suc k < length (train_states st) \<Longrightarrow>
     train_states st ! Suc k = gradient_descent_iteration (train_states st ! k)"
proof (induction st arbitrary: k rule: train_states.induct)
  case (1 st)
  let ?st' = "gradient_descent_iteration st"
  have u: "train_states st = ?st' # (if continue_loop ?st' then train_states ?st' else [])"
    by (rule train_states_unfold)
  show ?case
  proof (cases "continue_loop ?st'")
    case True
    then have u': "train_states st = ?st' # train_states ?st'" using u by simp
    show ?thesis
    proof (cases k)
      case 0
      then show ?thesis by (simp add: u' hd_train_states)
    next
      case (Suc k')
      with "1.prems" have "Suc k' < length (train_states ?st')" by (simp add: u')
      from "1.IH" [OF refl True this] Suc show ?thesis by (simp add: u')
    qed
  next
    case False
    with "1.prems" u show ?thesis by simp
  qed
qed

lemma train_states_continue:
  "k < length (train_states st) \<Longrightarrow>
     Suc k < length (train_states st) \<longleftrightarrow> continue_loop (train_states st ! k)"
proof (induction st arbitrary: k rule: train_states.induct)
  case (1 st)
  let ?st' = "gradient_descent_iteration st"
  have u: "train_states st = ?st' # (if continue_loop ?st' then train_states ?st' else [])"
    by (rule train_states_unfold)
  show ?case
  proof (cases "continue_loop ?st'")
    case True
    then have u': "train_states st = ?st' # train_states ?st'" using u by simp
    show ?thesis
    proof (cases k)
      case 0
      then show ?thesis using True by (simp add: u' train_states_not_Nil)
    next
      case (Suc k')
      with "1.prems" have "k' < length (train_states ?st')" by (simp add: u')
      from "1.IH" [OF refl True this] Suc show ?thesis by (simp add: u')
    qed
  next
    case False
    then have u': "train_states st = [?st']" using u by simp
    with "1.prems" False show ?thesis by simp
  qed
qed

lemma train_states_length:
  "iter st < maxIter \<Longrightarrow> length (train_states st) \<le> maxIter - iter st"
proof (induction st rule: train_states.induct)
  case (1 st)
  let ?st' = "gradient_descent_iteration st"
  have u: "train_states st = ?st' # (if continue_loop ?st' then train_states ?st' else [])"
    by (rule train_states_unfold)
  have it: "iter ?st' = iter st + 1"
    using "1.prems" by (simp add: iter_gradient_descent_iteration maxIter_def)
  show ?case
  proof (cases "continue_loop ?st'")
    case True
    then have lt: "iter ?st' < maxIter"
      by (auto simp: continue_loop_def maxIter_def)
    from "1.IH" [OF refl True lt] it True u "1.prems" show ?thesis by simp
  next
    case False
    with u "1.prems" show ?thesis by simp
  qed
qed

lemma train_states_iter:
  "iter st + length (train_states st) < 2 ^ 32 \<Longrightarrow> k < length (train_states st) \<Longrightarrow>
     iter (train_states st ! k) = iter st + k + 1"
proof (induction k)
  case 0
  then have "iter st + 1 < 2 ^ 32" by (cases "train_states st") simp_all
  then show ?case
    by (simp add: hd_train_states iter_gradient_descent_iteration)
next
  case (Suc k)
  then have "iter (train_states st ! k) = iter st + k + 1" by simp
  moreover have "iter st + k + 2 < 2 ^ 32" using Suc.prems by simp
  ultimately show ?case
    using Suc.prems by (simp add: train_states_next iter_gradient_descent_iteration)
qed

section \<open>Properties of normalize\<close>

lemma normalize_cells_length [simp]:
  "length (fold (normalize_cell fv w i r) js buf) = length buf"
  by (induction js arbitrary: buf) (simp_all add: normalize_cell_def Let_def)

lemma normalize_column_length [simp]:
  "length (normalize_column fv w n i buf) = length buf"
  by (simp add: normalize_column_def Let_def)

lemma normalize_columns_length [simp]:
  "length (fold (normalize_column fv w n) is buf) = length buf"
  by (induction "is" arbitrary: buf) simp_all

lemma normalize_length: "length (normalize fv buf n) = length buf"
  by (simp add: normalize_def Let_def)

lemma normalize_column_nth:
  assumes len: "length buf = n * w" and fit: "n * w \<le> 2 ^ 32"
    and i: "i < w" and i': "i' < w" and j: "j < n"
  shows "normalize_column fv w n i buf ! (j * w + i') =
           (if i' = i then normalized_value (fv ! i) (buf ! (j * w + i')) else buf ! (j * w + i'))"
proof (cases "max_attr (fv ! i) - min_attr (fv ! i) = 0")
  case True
  then show ?thesis by (simp add: normalize_column_def normalized_value_def)
next
  case False
  define r where "r = max_attr (fv ! i) - min_attr (fv ! i)"
  define f where "f = (\<lambda>j. (j * w + i) mod (2 ^ 32 :: nat))"
  define g where "g = (\<lambda>v. (v - mean (fv ! i)) / r)"
  have cell: "normalize_cell fv w i r = (\<lambda>j b. b[f j := g (b ! f j)])"
    by (intro ext) (simp add: normalize_cell_def f_def g_def Let_def)
  have f_eq: "f k = k * w + i" if "k < n" for k
  proof -
    have "k * w + i < n * w" using i that by (rule cell_index_less)
    with fit show ?thesis by (simp add: f_def)
  qed
  have col: "normalize_column fv w n i buf = fold (\<lambda>j b. b[f j := g (b ! f j)]) [0..<n] buf"
    using False by (simp add: normalize_column_def r_def [symmetric] cell Let_def)
  show ?thesis
  proof (cases "i' = i")
    case True
    have inj: "inj_on f {..<n}"
      by (rule inj_onI) (use i in \<open>simp add: f_eq cell_index_eq\<close>)
    have "f j < length buf"
      using cell_index_less [OF i j] by (simp add: f_eq j len)
    from fold_update_hit [OF inj j this, of g]
    show ?thesis using True False by (simp add: col f_eq j g_def r_def normalized_value_def)
  next
    case False
    have "j * w + i' \<notin> f ` set [0..<n]"
    proof
      assume "j * w + i' \<in> f ` set [0..<n]"
      then obtain k where "k < n" "j * w + i' = k * w + i" by (auto simp: f_eq)
      with i i' False show False by (simp add: cell_index_eq)
    qed
    then show ?thesis using False by (simp add: col fold_update_other)
  qed
qed

lemma normalize_columns_nth:
  assumes len: "length buf = n * w" and fit: "n * w \<le> 2 ^ 32"
    and m: "m \<le> w" and i: "i < w" and j: "j < n"
  shows "fold (normalize_column fv w n) [0..<m] buf ! (j * w + i) =
           (if i < m then normalized_value (fv ! i) (buf ! (j * w + i)) else buf ! (j * w + i))"
  using m
proof (induction m)
  case 0
  then show ?case by simp
next
  case (Suc m)
  then have mw: "m < w" and IH: "fold (normalize_column fv w n) [0..<m] buf ! (j * w + i) =
           (if i < m then normalized_value (fv ! i) (buf ! (j * w + i)) else buf ! (j * w + i))"
    by simp_all
  have len': "length (fold (normalize_column fv w n) [0..<m] buf) = n * w"
    by (simp add: len)
  show ?case
    using normalize_column_nth [OF len' fit mw i j, of fv] IH
    by (auto simp: less_Suc_eq)
qed


text \<open>
  C3. For a buffer of \<open>n\<close> rows of \<open>length fv\<close> features (whose indices fit an
  \<^verbatim>\<open>unsigned int\<close>), \<^verbatim>\<open>normalize\<close> keeps the size of the buffer and leaves in cell
  \<open>(j, i)\<close> the old value when \<open>max - min\<close> of column \<open>i\<close> is 0 and
  \<open>(v - mean) / (max - min)\<close> otherwise. The descriptors are passed by value: the caller's
  \<open>featureVec\<close> is the one it had, and its buffer is the normalized one.
\<close>

theorem normalize_cells:
  assumes "length fv < 2 ^ 32"
    and "length buf = n * length fv"
    and "n * length fv \<le> 2 ^ 32"
  shows "length (normalize fv buf n) = length buf \<and>
    (\<forall>i<length fv. \<forall>j<n.
       normalize fv buf n ! (j * length fv + i) =
         (let range' = max_attr (fv ! i) - min_attr (fv ! i);
              v = buf ! (j * length fv + i)
          in if range' = 0 then v else (v - mean (fv ! i)) / range')) \<and>
    featureVec (main_init fv buf cls n) = fv \<and>
    featureBuff (main_init fv buf cls n) = normalize fv buf n"
  using assms
  by (simp add: normalize_length main_init_def Let_def normalize_def normalize_columns_nth
      normalized_value_def)

theorem normalize_cells_witness:
  "length fv2 < 2 ^ 32 \<and> length [1, 2, 3, 2, 5, 2 :: real] = 3 * length fv2 \<and>
   3 * length fv2 \<le> 2 ^ 32 \<and>
   normalize fv2 [1, 2, 3, 2, 5, 2] 3 ! (2 * length fv2 + 0) = 1 / 2 \<and>
   normalize fv2 [1, 2, 3, 2, 5, 2] 3 ! (2 * length fv2 + 1) = 2"
proof -
  have h1: "length fv2 < 2 ^ 32" by (simp add: fv2_def)
  have h2: "length [1, 2, 3, 2, 5, 2 :: real] = 3 * length fv2" by (simp add: fv2_def)
  have h3: "3 * length fv2 \<le> 2 ^ 32" by (simp add: fv2_def)
  note cells = normalize_cells [OF h1 h2 h3, THEN conjunct2, THEN conjunct1, rule_format]
  have "normalize fv2 [1, 2, 3, 2, 5, 2] 3 ! (2 * length fv2 + 0) = 1 / 2"
    using cells [of 0 2] by (simp add: fv2_def)
  moreover have "normalize fv2 [1, 2, 3, 2, 5, 2] 3 ! (2 * length fv2 + 1) = 2"
    using cells [of 1 2] by (simp add: fv2_def)
  ultimately show ?thesis using h1 h2 h3 by blast
qed



section \<open>Frame of the loop\<close>

lemma train_frame:
  "featureVec (train st) = featureVec st \<and> featureBuff (train st) = featureBuff st \<and>
   classIndexBuff (train st) = classIndexBuff st \<and> numInst (train st) = numInst st \<and>
   numFeaturesM (train st) = numFeaturesM st"
proof (induction st rule: train.induct)
  case (1 st)
  show ?case
  proof (cases "continue_loop (gradient_descent_iteration st)")
    case True
    with 1 [OF refl True] show ?thesis
      by (subst (1 2 3 4 5) train_unfold) (simp add: gradient_descent_iteration_frame)
  next
    case False
    then show ?thesis
      by (subst (1 2 3 4 5) train_unfold) (simp add: gradient_descent_iteration_frame)
  qed
qed

lemma train_states_frame:
  "list_all (\<lambda>s. featureBuff s = featureBuff st \<and> classIndexBuff s = classIndexBuff st)
     (train_states st)"
proof (induction st rule: train_states.induct)
  case (1 st)
  show ?case
  proof (cases "continue_loop (gradient_descent_iteration st)")
    case True
    with 1 [OF refl True] show ?thesis
      by (subst train_states_unfold) (simp add: gradient_descent_iteration_frame)
  next
    case False
    then show ?thesis
      by (subst train_states_unfold) (simp add: gradient_descent_iteration_frame)
  qed
qed

lemma length_update_weights [simp]:
  "length (update_weights st) = length (weights (node st))"
  by (simp add: update_weights_def)

lemma length_weights_iteration:
  "length (weights (node (gradient_descent_iteration st))) = length (weights (node st))"
proof -
  let ?st1 = "st\<lparr>batchArr := memset_doubles (batchArr st) 0 (numFeaturesM st * sizeof_double)\<rparr>"
  obtain a b B c where r: "fold train_row [0..<numInst st] (?st1, 0) =
      (?st1\<lparr>node := (node ?st1)\<lparr>inputs := a, output := b\<rparr>, batchArr := B\<rparr>, c)"
    using train_rows_shape [of "[0..<numInst st]" ?st1 0] by blast
  show ?thesis
    by (simp add: gradient_descent_iteration_def r Let_def)
qed

lemma length_weights_train:
  "length (weights (node (train st))) = length (weights (node st))"
proof (induction st rule: train.induct)
  case (1 st)
  show ?case
  proof (cases "continue_loop (gradient_descent_iteration st)")
    case True
    with 1 [OF refl True] show ?thesis
      by (subst train_unfold) (simp add: length_weights_iteration)
  next
    case False
    then show ?thesis
      by (subst train_unfold) (simp add: length_weights_iteration)
  qed
qed

lemma weights_iteration:
  assumes "wf_state st"
  shows "weights (node (gradient_descent_iteration st)) = new_weights st"
    and "batchArr (gradient_descent_iteration st) = gradient st"
  using gradient_descent_iteration_exact [OF assms] by auto

lemma bias_iteration:
  assumes "wf_state st"
  shows "weights (node (gradient_descent_iteration st)) ! numFeaturesM st =
         weights (node st) ! numFeaturesM st"
  by (simp add: weights_iteration [OF assms] new_weights_def nth_append del: upt_Suc)

lemma bias_train:
  "wf_state st \<Longrightarrow>
     weights (node (train st)) ! numFeaturesM st = weights (node st) ! numFeaturesM st"
proof (induction st rule: train.induct)
  case (1 st)
  let ?st' = "gradient_descent_iteration st"
  have wf': "wf_state ?st'" using "1.prems" by (rule wf_gradient_descent_iteration)
  show ?case
  proof (cases "continue_loop ?st'")
    case True
    from "1.IH" [OF refl True wf'] True show ?thesis
      by (subst train_unfold)
        (simp add: gradient_descent_iteration_frame bias_iteration [OF "1.prems"])
  next
    case False
    then show ?thesis
      by (subst train_unfold) (simp add: bias_iteration [OF "1.prems"])
  qed
qed

section \<open>The state on entry to the loop\<close>

lemma initNode_eq:
  assumes "nF < 2 ^ 32 - 1"
  shows "initNode nF =
    \<lparr>numFeatures = nF, weights = replicate (nF + 1) (memset_value 1), inputs = 0, output = 0\<rparr>"
proof -
  have "(nF + 1) mod 2 ^ 32 = nF + 1" using assms by simp
  then show ?thesis
    by (simp add: initNode_def Let_def memset_doubles_all malloc_doubles_def del: replicate_Suc)
qed

lemma wf_main_init:
  assumes "length fv < 2 ^ 32 - 1" and "length buf = n * length fv"
    and "n * length fv \<le> 2 ^ 32" and "length cls = n"
  shows "wf_state (main_init fv buf cls n)"
proof -
  have m: "length fv mod 2 ^ 32 = length fv" using assms(1) by simp
  show ?thesis
    using assms
    by (simp add: wf_state_def main_init_def Let_def m initNode_eq normalize_length
        malloc_doubles_def del: replicate_Suc)
qed

lemma hRes_row_eq:
  assumes "wf_state st" and "j < numInst st"
  shows "hRes_row st j = snd (activate (featureBuff st) (node st) (j * numFeaturesM st))"
proof -
  from assms have "(j * numFeaturesM st) mod 2 ^ 32 = j * numFeaturesM st"
    by (intro row_offset [of j "numInst st"]) (simp_all add: wf_state_def)
  then show ?thesis by (simp add: hRes_row_def)
qed

lemma wf_ex_init: "wf_state ex_init"
  unfolding ex_init_def
  by (rule wf_main_init) (simp_all add: fv2_def)

lemma ex_init_fields:
  "numFeaturesM ex_init = 2" "numInst ex_init = 3" "classIndexBuff ex_init = [0, 1, 1]"
  "iter ex_init = 0" "costSumPre ex_init = 0"
  by (simp_all add: ex_init_def main_init_def fv2_def Let_def)

lemma ex_init_weights:
  "weights (node ex_init) = replicate 3 (memset_value 1)"
proof -
  have "length fv2 mod 2 ^ 32 = 2" by (simp add: fv2_def)
  then have "node ex_init = initNode 2"
    by (simp add: ex_init_def main_init_def Let_def)
  moreover have "(2::nat) < 2 ^ 32 - 1" by simp
  ultimately show ?thesis by (simp add: initNode_eq del: replicate_Suc)
qed

lemma main_init_iter [simp]: "iter (main_init fv buf cls n) = 0"
  by (simp add: main_init_def Let_def)

lemma main_init_costSumPre [simp]: "costSumPre (main_init fv buf cls n) = 0"
  by (simp add: main_init_def Let_def)

lemma train_states_length_init:
  assumes "iter st = 0"
  shows "length (train_states st) \<le> maxIter" and "2 \<le> length (train_states st)"
proof -
  show "length (train_states st) \<le> maxIter"
    using train_states_length [of st] assms by (simp add: maxIter_def)
  have "iter (gradient_descent_iteration st) = 1"
    using assms by (simp add: iter_gradient_descent_iteration)
  then have c: "continue_loop (gradient_descent_iteration st)"
    by (simp add: continue_loop_def)
  from train_states_continue [of 0 st] c
  have "Suc 0 < length (train_states st)"
    by (simp add: hd_train_states train_states_not_Nil)
  then show "2 \<le> length (train_states st)" by simp
qed

lemma train_states_iter_init:
  assumes "iter st = 0" and "k < length (train_states st)"
  shows "iter (train_states st ! k) = k + 1"
proof -
  have "length (train_states st) \<le> 200"
    using train_states_length_init(1) [OF assms(1)] by (simp add: maxIter_def)
  then have "iter st + length (train_states st) < 2 ^ 32" using assms(1) by simp
  from train_states_iter [OF this assms(2)] assms(1) show ?thesis by simp
qed

lemma train_stops: "\<not> continue_loop (train st)"
proof -
  let ?tr = "train_states st"
  have ne: "?tr \<noteq> []" by (rule train_states_not_Nil)
  then have k: "length ?tr - 1 < length ?tr" by simp
  from train_states_continue [OF k] have "\<not> continue_loop (?tr ! (length ?tr - 1))"
    using ne by simp
  then show ?thesis using ne by (simp add: train_last last_conv_nth)
qed

text \<open>On the constant dataset the gradient is 0, so the second pass has the cost of the first.\<close>

lemma cost_sum_cong:
  assumes "featureBuff s' = featureBuff s" and "classIndexBuff s' = classIndexBuff s"
    and "numInst s' = numInst s" and "numFeaturesM s' = numFeaturesM s"
    and "weights (node s') = weights (node s)" and "numFeatures (node s') = numFeatures (node s)"
  shows "cost_sum s' = cost_sum s"
  using assms by (simp add: cost_sum_def hRes_row_def activate_eq)

lemma wf_ex0_init: "wf_state ex0_init"
  unfolding ex0_init_def
  by (rule wf_main_init) (simp_all add: fv0_def)

lemma ex0_init_fields:
  "numFeaturesM ex0_init = 1" "numInst ex0_init = 2" "featureBuff ex0_init = [0, 0]"
  by (simp_all add: ex0_init_def main_init_def fv0_def Let_def normalize_def
      normalize_column_def)

lemma ex0_gradient: "gradient ex0_init = [0]"
  by (simp add: gradient_def ex0_init_fields eval_nat_numeral)

lemma ex0_weights: "new_weights ex0_init = weights (node ex0_init)"
proof -
  from wf_ex0_init have "length (weights (node ex0_init)) = 2"
    by (simp add: wf_state_def ex0_init_fields)
  then show ?thesis
    by (intro nth_equalityI)
      (auto simp: new_weights_def ex0_init_fields ex0_gradient less_Suc_eq)
qed

lemma ex0_second_delta:
  "deltaCostSum (gradient_descent_iteration (gradient_descent_iteration ex0_init)) = 0"
proof -
  let ?s1 = "gradient_descent_iteration ex0_init"
  have wf1: "wf_state ?s1" using wf_ex0_init by (rule wf_gradient_descent_iteration)
  have w1: "weights (node ?s1) = weights (node ex0_init)"
    by (simp add: weights_iteration(1) [OF wf_ex0_init] ex0_weights)
  have c1: "costSumPre ?s1 = cost_sum ex0_init"
    using gradient_descent_iteration_exact [OF wf_ex0_init] by auto
  have c2: "costSumPre (gradient_descent_iteration ?s1) = cost_sum ?s1"
    using gradient_descent_iteration_exact [OF wf1] by auto
  have "cost_sum ?s1 = cost_sum ex0_init"
    by (rule cost_sum_cong) (simp_all add: gradient_descent_iteration_frame w1)
  with c1 c2 show ?thesis
    by (simp add: gradient_descent_iteration_frame(7) [of ?s1])
qed

section \<open>Properties of rounding\<close>

lemma round_half_even_int [simp]: "round_half_even (of_int k) = k"
  by (simp add: round_half_even_def)

lemma round_half_even_low:
  assumes "of_int k \<le> y" and "y < of_int k + 1 / 2"
  shows "round_half_even y = k"
proof -
  have "\<lfloor>y\<rfloor> = k" using assms by (intro floor_unique) simp_all
  with assms show ?thesis by (simp add: round_half_even_def)
qed

lemma round_half_even_bounds:
  "0 \<le> y \<Longrightarrow> 0 \<le> round_half_even y" "of_int (round_half_even y) \<le> y + 1 / 2"
proof -
  have f: "of_int \<lfloor>y\<rfloor> \<le> y" by simp
  consider "y - of_int \<lfloor>y\<rfloor> < 1 / 2" | "1 / 2 \<le> y - of_int \<lfloor>y\<rfloor>" by linarith
  then show "of_int (round_half_even y) \<le> y + 1 / 2"
  proof cases
    case 1
    then have "round_half_even y = \<lfloor>y\<rfloor>" by (simp add: round_half_even_def)
    with f show ?thesis by linarith
  next
    case 2
    then have "round_half_even y \<le> \<lfloor>y\<rfloor> + 1" by (simp add: round_half_even_def Let_def)
    then have "real_of_int (round_half_even y) \<le> of_int \<lfloor>y\<rfloor> + 1"
      by (metis of_int_1 of_int_add of_int_le_iff)
    with 2 show ?thesis by linarith
  qed
  assume "0 \<le> y"
  then have "0 \<le> \<lfloor>y\<rfloor>" by simp
  then show "0 \<le> round_half_even y"
    by (auto simp: round_half_even_def Let_def)
qed

lemma double_round_pos:
  assumes "0 < x" and "\<lfloor>log 2 x\<rfloor> = e" and "- 1022 \<le> e"
    and "2 powr (of_int e - 52) = u"
    and "round_half_even (x / u) = r" and "of_int r * u = y" and "\<bar>y\<bar> < 2 ^ 1024"
  shows "double_round x = Some y"
proof -
  have ax: "\<bar>x\<bar> = x" using assms(1) by simp
  have x0: "x \<noteq> 0" using assms(1) by simp
  have ne: "\<not> e < - 1022" using assms(3) by simp
  have ny: "\<not> 2 ^ 1024 \<le> \<bar>y\<bar>" using assms(7) by simp
  show ?thesis
    unfolding double_round_def Let_def ax assms(2) assms(4) assms(5) assms(6)
    using x0 ne ny by (simp only: if_False)
qed

lemma floor_log2_nat:
  assumes "(2::real) ^ k \<le> x" and "x < 2 ^ Suc k"
  shows "\<lfloor>log 2 x\<rfloor> = int k"
proof -
  have x0: "0 < x" using assms(1) by (rule less_le_trans [rotated]) simp
  have "\<lfloor>log 2 x\<rfloor> = int k \<longleftrightarrow> 2 powr (int k) \<le> x \<and> x < 2 powr (int k + 1)"
    using x0 by (intro floor_log_eq_powr_iff) simp_all
  moreover have "(2::real) powr (int k) = 2 ^ k" "(2::real) powr (int k + 1) = 2 ^ Suc k"
    by (simp_all add: powr_add powr_realpow)
  ultimately show ?thesis using assms(1,2) by simp
qed

lemma double_round_exact:
  assumes "(2::real) ^ k \<le> x" and "x < 2 ^ Suc k" and "k \<le> 52"
    and "x = of_int m"
  shows "double_round x = Some x"
proof (rule double_round_pos)
  show "0 < x" using assms(1) by (rule less_le_trans [rotated]) simp
  show "\<lfloor>log 2 x\<rfloor> = int k" using assms(1,2) by (rule floor_log2_nat)
  show "- 1022 \<le> int k" by simp
  show "2 powr (real_of_int (int k) - 52) = 1 / 2 ^ (52 - k)"
  proof -
    have "real_of_int (int k) - 52 = - real (52 - k)" using assms(3) by simp
    then show ?thesis by (simp only: powr_minus_divide powr_realpow)
  qed
  show "round_half_even (x / (1 / 2 ^ (52 - k))) = m * 2 ^ (52 - k)"
  proof -
    have "x / (1 / 2 ^ (52 - k)) = of_int (m * 2 ^ (52 - k))"
      using assms(4) by simp
    then show ?thesis by (simp only: round_half_even_int)
  qed
  show "real_of_int (m * 2 ^ (52 - k)) * (1 / 2 ^ (52 - k)) = x"
    using assms(4) by simp
  have "x < 2 ^ Suc 52"
    using assms(2) by (rule less_le_trans) (use assms(3) in \<open>intro power_increasing; simp\<close>)
  also have "\<dots> < (2::real) ^ 1024" by (intro power_strict_increasing) simp_all
  finally show "\<bar>x\<bar> < 2 ^ 1024" using \<open>0 < x\<close> by simp
qed

lemma double_round_one_plus:
  assumes "0 \<le> t" and "t < 1 / 2 ^ 53"
  shows "double_round (1 + t) = Some 1"
proof (rule double_round_pos)
  show "0 < 1 + t" using assms(1) by simp
  have "t < 1"
    using assms(2) by (rule less_le_trans) simp
  then show "\<lfloor>log 2 (1 + t)\<rfloor> = int 0"
    using assms(1) by (intro floor_log2_nat) simp_all
  show "- 1022 \<le> int 0" by simp
  show "2 powr (real_of_int (int 0) - 52) = 1 / 2 ^ 52"
    by (simp add: powr_minus_divide)
  have "of_int (2 ^ 52) \<le> (1 + t) / (1 / 2 ^ 52)" using assms(1) by simp
  moreover have "(1 + t) / (1 / 2 ^ 52) < of_int (2 ^ 52) + 1 / 2"
  proof -
    have "t * 2 ^ 52 < 1 / 2 ^ 53 * 2 ^ 52" using assms(2) by simp
    then show ?thesis by (simp add: algebra_simps)
  qed
  ultimately show "round_half_even ((1 + t) / (1 / 2 ^ 52)) = 2 ^ 52"
    by (rule round_half_even_low)
  show "real_of_int (2 ^ 52) * (1 / 2 ^ 52) = 1" by simp
  show "\<bar>1::real\<bar> < 2 ^ 1024" by simp
qed

lemma double_round_small:
  assumes lo: "2 powr (- 1022) \<le> x" and hi: "x < 1"
  shows "\<exists>y. double_round x = Some y \<and> 0 \<le> y \<and> y \<le> 2 * x"
proof -
  define e where "e = \<lfloor>log 2 x\<rfloor>"
  define u :: real where "u = 2 powr (of_int e - 52)"
  define r where "r = round_half_even (x / u)"
  have x0: "0 < x" using lo by (rule less_le_trans [rotated]) simp
  have u0: "0 < u" by (simp add: u_def)
  have "2 powr (of_int e) \<le> x \<and> x < 2 powr (of_int (e + 1))"
    using floor_log_eq_powr_iff [of x 2 e] x0 by (simp add: e_def)
  then have ex: "2 powr (of_int e) \<le> x" by simp
  have "- 1022 \<le> log 2 x"
    using lo x0 by (simp add: le_log_iff)
  then have e_lo: "- 1022 \<le> e" by (simp add: e_def le_floor_iff)
  have r0: "0 \<le> r" and r1: "of_int r \<le> x / u + 1 / 2"
    using round_half_even_bounds [of "x / u"] x0 u0 by (simp_all add: r_def)
  have "u = 2 powr (of_int e) * 2 powr (- 52)"
    by (simp add: u_def powr_diff powr_minus_divide)
  also have "\<dots> \<le> x * 2 powr (- 52)"
    using ex by (intro mult_right_mono) simp_all
  also have "\<dots> \<le> x * 2"
    using x0 by (intro mult_left_mono) (simp_all add: powr_minus_divide)
  finally have ux: "u \<le> 2 * x" by simp
  have "of_int r * u \<le> (x / u + 1 / 2) * u"
    using r1 u0 by (intro mult_right_mono) simp_all
  also have "\<dots> = x + u / 2" using u0 by (simp add: field_simps)
  also have "\<dots> \<le> 2 * x" using ux by simp
  finally have y1: "of_int r * u \<le> 2 * x" .
  have y0: "0 \<le> of_int r * u" using r0 u0 by simp
  have "\<bar>of_int r * u\<bar> < 2"
    using y0 y1 hi by simp
  also have "(2::real) \<le> 2 ^ 1024" by (rule self_le_power) simp_all
  finally have "\<bar>of_int r * u\<bar> < 2 ^ 1024" .
  then have "double_round x = Some (of_int r * u)"
    using x0 e_lo by (intro double_round_pos [of x e u r]) (simp_all add: e_def u_def r_def)
  with y0 y1 show ?thesis by blast
qed

lemma exp_60_bounds: "2 powr (- 1022) \<le> exp (- 60 :: real)" "exp (- 60 :: real) \<le> 1 / 2 ^ 60"
proof -
  have e: "exp (60 :: real) = exp 1 ^ 60"
    using exp_of_nat_mult [of 60 "1::real"] by simp
  have "(2::real) \<le> exp 1" using exp_ge_add_one_self [of "1::real"] by simp
  then have "(2::real) ^ 60 \<le> exp 1 ^ 60" by (intro power_mono) simp_all
  then have lo: "(2::real) ^ 60 \<le> exp 60" by (simp only: e)
  have "exp (1::real) ^ 60 \<le> 3 ^ 60" by (intro power_mono exp_le) simp
  also have "(3::real) ^ 60 \<le> 4 ^ 60" by (intro power_mono) simp_all
  also have "(4::real) ^ 60 = 2 ^ 120" by simp
  also have "(2::real) ^ 120 \<le> 2 ^ 1022" by (intro power_increasing) simp_all
  finally have hi: "exp (60 :: real) \<le> 2 ^ 1022" by (simp only: e)
  have p: "(2::real) powr (- 1022) = 1 / 2 ^ 1022"
    by (simp add: powr_minus_divide)
  show "2 powr (- 1022) \<le> exp (- 60 :: real)"
    unfolding p exp_minus' using hi by (intro divide_left_mono) simp_all
  show "exp (- 60 :: real) \<le> 1 / 2 ^ 60"
    unfolding exp_minus' using lo by (intro divide_left_mono) simp_all
qed

section \<open>A run that continues after the second pass\<close>

text \<open>
  Bounds on the sigmoid and on the two cost terms, and with them the first two passes on
  the four-row dataset: the first pass moves the weight from almost 0 to at least 9, so
  the cost falls from at least \<open>3 / 2\<close> to at most \<open>1 / 4\<close>.
\<close>

lemma sigmoid_pos: "0 < sigmoid z" and sigmoid_less_1: "sigmoid z < 1"
proof -
  have "0 < exp (- z)" by simp
  then show "0 < sigmoid z" "sigmoid z < 1"
    by (simp_all add: sigmoid_def add_pos_pos)
qed

lemma exp_4_ge: "16 \<le> exp (4 :: real)"
proof -
  have "exp (4 :: real) = exp 1 ^ 4"
    using exp_of_nat_mult [of 4 "1::real"] by simp
  moreover have "(2::real) \<le> exp 1" using exp_ge_add_one_self [of "1::real"] by simp
  then have "(2::real) ^ 4 \<le> exp 1 ^ 4" by (intro power_mono) simp_all
  ultimately show ?thesis by simp
qed

lemma exp_half_le: "exp (1 / 2 :: real) \<le> 16 / 9"
proof -
  have "exp (1 / 2 :: real) ^ 2 = exp 1"
    using exp_of_nat_mult [of 2 "1 / 2 :: real"] by simp
  also have "\<dots> \<le> 3" by (rule exp_le)
  also have "(3::real) \<le> (16 / 9) ^ 2" by (simp add: power2_eq_square)
  finally show ?thesis by (rule power2_le_imp_le) simp
qed

lemma exp_quarter_le: "exp (1 / 4 :: real) \<le> 4 / 3"
proof -
  have "exp (1 / 4 :: real) ^ 2 = exp (1 / 2)"
    using exp_of_nat_mult [of 2 "1 / 4 :: real"] by simp
  also have "\<dots> \<le> 16 / 9" by (rule exp_half_le)
  also have "(16 / 9 :: real) = (4 / 3) ^ 2" by (simp add: power2_eq_square)
  finally show ?thesis by (rule power2_le_imp_le) simp
qed

lemma sigmoid_ge_half:
  assumes "0 \<le> z"
  shows "1 / 2 \<le> sigmoid z"
proof -
  have "exp (- z) \<le> exp 0" using assms by (simp only: exp_le_cancel_iff)
  then have "1 + exp (- z) \<le> 2" by simp
  then have "1 / 2 \<le> 1 / (1 + exp (- z))"
    by (intro divide_left_mono) (simp_all add: add_pos_pos)
  then show ?thesis by (simp add: sigmoid_def)
qed

lemma sigmoid_le_3_4:
  assumes "z \<le> 1"
  shows "sigmoid z \<le> 3 / 4"
proof -
  have "1 / 3 \<le> 1 / exp (1 :: real)"
    using exp_le by (intro divide_left_mono) simp_all
  also have "\<dots> = exp (- 1)" by (simp add: exp_minus')
  also have "\<dots> \<le> exp (- z)" using assms by (simp only: exp_le_cancel_iff)
  finally have "4 / 3 \<le> 1 + exp (- z)" by linarith
  then have "1 / (1 + exp (- z)) \<le> 1 / (4 / 3)"
    by (intro divide_left_mono) simp_all
  then show ?thesis by (simp add: sigmoid_def)
qed

lemma sigmoid_ge_16_17:
  assumes "4 \<le> z"
  shows "16 / 17 \<le> sigmoid z"
proof -
  note exp_4_ge
  also have "exp 4 \<le> exp z" using assms by (simp only: exp_le_cancel_iff)
  finally have "1 / exp z \<le> 1 / 16" by (intro divide_left_mono) simp_all
  then have "1 + exp (- z) \<le> 17 / 16" by (simp only: exp_minus')
  then have "1 / (17 / 16) \<le> 1 / (1 + exp (- z))"
    by (intro divide_left_mono) (simp_all add: add_pos_pos)
  then show ?thesis by (simp add: sigmoid_def)
qed

lemma sigmoid_le_1_17:
  assumes "z \<le> - 4"
  shows "sigmoid z \<le> 1 / 17"
proof -
  note exp_4_ge
  also have "exp 4 \<le> exp (- z)" using assms by (simp only: exp_le_cancel_iff)
  finally have "17 \<le> 1 + exp (- z)" by linarith
  then have "1 / (1 + exp (- z)) \<le> 1 / 17"
    by (intro divide_left_mono) simp_all
  then show ?thesis by (simp add: sigmoid_def)
qed

lemma ln_inverse_exp: "ln (1 / exp c) = - (c :: real)"
  by (simp add: ln_div)

lemma neg_ln_ge:
  fixes u c :: real
  assumes "0 < u" and "u \<le> 1 / exp c"
  shows "c \<le> - ln u"
proof -
  have "0 < 1 / exp c" by simp
  with assms have "ln u \<le> ln (1 / exp c)" by (intro ln_mono)
  then show ?thesis by (simp only: ln_inverse_exp)
qed

lemma neg_ln_le:
  fixes u c :: real
  assumes "1 / exp c \<le> u"
  shows "- ln u \<le> c"
proof -
  have p: "0 < 1 / exp c" by simp
  then have u: "0 < u" using assms by (rule less_le_trans)
  have "ln (1 / exp c) \<le> ln u" using p u assms by (intro ln_mono)
  then show ?thesis by (simp only: ln_inverse_exp)
qed

lemma cost_term_bounds:
  "0 \<le> z \<Longrightarrow> 1 / 2 \<le> - ln (1 - sigmoid z)"
  "z \<le> 1 \<Longrightarrow> 1 / 4 \<le> - ln (sigmoid z)"
  "z \<le> - 4 \<Longrightarrow> - ln (1 - sigmoid z) \<le> 1 / 16"
  "4 \<le> z \<Longrightarrow> - ln (sigmoid z) \<le> 1 / 16"
proof -
  have e16: "1 / exp (1 / 16 :: real) \<le> 16 / 17"
  proof -
    have "17 / 16 \<le> exp (1 / 16 :: real)"
      using exp_ge_add_one_self [of "1 / 16 :: real"] by simp
    then have "1 / exp (1 / 16 :: real) \<le> 1 / (17 / 16)"
      by (intro divide_left_mono) simp_all
    then show ?thesis by simp
  qed
  have e2: "1 / 2 \<le> 1 / exp (1 / 2 :: real)"
  proof -
    have "exp (1 / 2 :: real) \<le> 2" using exp_half_le by linarith
    then show ?thesis by (intro divide_left_mono) simp_all
  qed
  have e4: "3 / 4 \<le> 1 / exp (1 / 4 :: real)"
  proof -
    have "1 / (4 / 3) \<le> 1 / exp (1 / 4 :: real)"
      using exp_quarter_le by (intro divide_left_mono) simp_all
    then show ?thesis by simp
  qed
  show "1 / 2 \<le> - ln (1 - sigmoid z)" if "0 \<le> z"
  proof (rule neg_ln_ge)
    show "0 < 1 - sigmoid z" using sigmoid_less_1 [of z] by linarith
    show "1 - sigmoid z \<le> 1 / exp (1 / 2)"
      using sigmoid_ge_half [OF that] e2 by linarith
  qed
  show "1 / 4 \<le> - ln (sigmoid z)" if "z \<le> 1"
  proof (rule neg_ln_ge)
    show "0 < sigmoid z" by (rule sigmoid_pos)
    show "sigmoid z \<le> 1 / exp (1 / 4)"
      using sigmoid_le_3_4 [OF that] e4 by linarith
  qed
  show "- ln (1 - sigmoid z) \<le> 1 / 16" if "z \<le> - 4"
  proof (rule neg_ln_le)
    show "1 / exp (1 / 16) \<le> 1 - sigmoid z"
      using sigmoid_le_1_17 [OF that] e16 by linarith
  qed
  show "- ln (sigmoid z) \<le> 1 / 16" if "4 \<le> z"
  proof (rule neg_ln_le)
    show "1 / exp (1 / 16) \<le> sigmoid z"
      using sigmoid_ge_16_17 [OF that] e16 by linarith
  qed
qed

lemma sum_lessThan_4: "(\<Sum>j<(4::nat). f j) = f 0 + f 1 + f 2 + (f 3 :: real)"
  by (simp add: eval_nat_numeral)

lemma memset_value_1_bounds: "0 < memset_value 1" "memset_value 1 \<le> 1 / 2"
  by (simp_all add: memset_value_1)

lemma four_rows_pass:
  assumes nf: "numFeaturesM st = 1" "numFeatures (node st) = 1" and ni: "numInst st = 4"
    and fb: "featureBuff st = [- 1 / 2, 1 / 2, - 1 / 2, 1 / 2]"
    and cl: "classIndexBuff st = [0, 1, 0, 1]"
    and w: "weights (node st) = [w, b]"
  shows "cost_sum st = 2 * (- ln (1 - sigmoid (b - w / 2))) + 2 * (- ln (sigmoid (b + w / 2)))"
    and "gradient st = [sigmoid (b + w / 2) - sigmoid (b - w / 2) - 1]"
    and "new_weights st = [w - 25 / 2 * (sigmoid (b + w / 2) - sigmoid (b - w / 2) - 1), b]"
proof -
  have h: "hRes_row st j = sigmoid (b + w * featureBuff st ! j)" if "j < 4" for j
    using that by (simp add: hRes_row_def activate_eq linear_def nf w)
  have h0: "hRes_row st 0 = sigmoid (b - w / 2)" "hRes_row st 2 = sigmoid (b - w / 2)"
    and h1: "hRes_row st (Suc 0) = sigmoid (b + w / 2)" "hRes_row st 3 = sigmoid (b + w / 2)"
    by (simp_all add: h fb)
  show c: "cost_sum st = 2 * (- ln (1 - sigmoid (b - w / 2))) + 2 * (- ln (sigmoid (b + w / 2)))"
    by (simp add: cost_sum_def ni sum_lessThan_4 computeCost_def cl h0 h1)
  show g: "gradient st = [sigmoid (b + w / 2) - sigmoid (b - w / 2) - 1]"
    by (simp add: gradient_def ni nf sum_lessThan_4 diff_row_def cl fb h0 h1 algebra_simps)
  show "new_weights st = [w - 25 / 2 * (sigmoid (b + w / 2) - sigmoid (b - w / 2) - 1), b]"
    by (simp add: new_weights_def nf ni w g alpha_def upt_rec)
qed

lemma wf_ex4_init: "wf_state ex4_init"
  unfolding ex4_init_def
  by (rule wf_main_init) (simp_all add: fv4_def)

lemma ex4_init_fields:
  "numFeaturesM ex4_init = 1" "numFeatures (node ex4_init) = 1" "numInst ex4_init = 4"
  "featureBuff ex4_init = [- 1 / 2, 1 / 2, - 1 / 2, 1 / 2]"
  "classIndexBuff ex4_init = [0, 1, 0, 1]"
  by (simp_all add: ex4_init_def main_init_def fv4_def Let_def initNode_def normalize_def
      normalize_column_def normalize_cell_def upt_rec)

lemma ex4_init_weights: "weights (node ex4_init) = [memset_value 1, memset_value 1]"
proof -
  have "length fv4 mod 2 ^ 32 = 1" by (simp add: fv4_def)
  then have "node ex4_init = initNode 1"
    by (simp add: ex4_init_def main_init_def Let_def)
  moreover have "(1::nat) < 2 ^ 32 - 1" by simp
  ultimately show ?thesis by (simp add: initNode_eq)
qed

lemma ex4_second_delta:
  "1 < deltaCostSum (gradient_descent_iteration (gradient_descent_iteration ex4_init))"
proof -
  define e where "e = memset_value 1"
  define g where "g = sigmoid (e + e / 2) - sigmoid (e - e / 2) - 1"
  define w1 where "w1 = e - 25 / 2 * g"
  let ?s1 = "gradient_descent_iteration ex4_init"
  have e: "0 < e" "e \<le> 1 / 2" using memset_value_1_bounds by (simp_all add: e_def)
  have wf1: "wf_state ?s1" using wf_ex4_init by (rule wf_gradient_descent_iteration)
  have c0: "cost_sum ex4_init =
      2 * (- ln (1 - sigmoid (e - e / 2))) + 2 * (- ln (sigmoid (e + e / 2)))"
    and nw: "new_weights ex4_init = [w1, e]"
    using four_rows_pass(1,3) [OF ex4_init_fields, of e e]
    by (simp_all add: ex4_init_weights e_def g_def w1_def)
  have w1: "weights (node ?s1) = [w1, e]"
    by (simp add: weights_iteration(1) [OF wf_ex4_init] nw)
  have c1: "cost_sum ?s1 =
      2 * (- ln (1 - sigmoid (e - w1 / 2))) + 2 * (- ln (sigmoid (e + w1 / 2)))"
    by (rule four_rows_pass(1))
      (simp_all add: gradient_descent_iteration_frame ex4_init_fields w1)
  have "1 / 2 \<le> - ln (1 - sigmoid (e - e / 2))"
    using e by (intro cost_term_bounds) simp
  moreover have "1 / 4 \<le> - ln (sigmoid (e + e / 2))"
    using e by (intro cost_term_bounds) simp
  ultimately have lo: "3 / 2 \<le> cost_sum ex4_init" unfolding c0 by linarith
  have "sigmoid (e + e / 2) \<le> 3 / 4" using e by (intro sigmoid_le_3_4) simp
  moreover have "1 / 2 \<le> sigmoid (e - e / 2)" using e by (intro sigmoid_ge_half) simp
  ultimately have "g \<le> - 3 / 4" unfolding g_def by linarith
  then have w1_lo: "9 \<le> w1" using e unfolding w1_def by linarith
  have "- ln (1 - sigmoid (e - w1 / 2)) \<le> 1 / 16"
    using e w1_lo by (intro cost_term_bounds) simp
  moreover have "- ln (sigmoid (e + w1 / 2)) \<le> 1 / 16"
    using e w1_lo by (intro cost_term_bounds) simp
  ultimately have hi: "cost_sum ?s1 \<le> 1 / 4" unfolding c1 by linarith
  have "deltaCostSum (gradient_descent_iteration ?s1) = cost_sum ex4_init - cost_sum ?s1"
    using gradient_descent_iteration_exact [OF wf1] gradient_descent_iteration_exact [OF wf_ex4_init]
    by auto
  with lo hi show ?thesis by linarith
qed

text \<open>The cost a pass stores, and the sizes of the buffers along the loop.\<close>

lemma cost_iteration:
  assumes "wf_state st"
  shows "costSumPre (gradient_descent_iteration st) = cost_sum st"
    and "deltaCostSum (gradient_descent_iteration st) = costSumPre st - cost_sum st"
  using gradient_descent_iteration_exact [OF assms] by auto

lemma train_states_wf:
  assumes "wf_state st" and "k < length (train_states st)"
  shows "wf_state (train_states st ! k)"
  using assms(2)
proof (induction k)
  case 0
  show ?case
    using assms(1) by (simp add: hd_train_states wf_gradient_descent_iteration)
next
  case (Suc k)
  then have "wf_state (train_states st ! k)" by simp
  then show ?case
    using Suc.prems by (simp add: train_states_next wf_gradient_descent_iteration)
qed

section \<open>Properties of the trainer\<close>

text \<open>
  C1. In a state with buffers of the expected sizes, one pass through the loop body leaves
  in \<open>batchArr\<close>, for every feature \<open>k\<close>, the sum over the rows \<open>j = 0, \<dots>, numInst - 1\<close> of
  \<open>diff\<^sub>j * row\<^sub>j[k]\<close>, where \<open>hRes\<^sub>j\<close> is what \<^verbatim>\<open>activate\<close> returns for the node's weights
  and row \<open>j\<close> and \<open>diff\<^sub>j = hRes\<^sub>j - label\<^sub>j\<close>; the cost it accumulates (kept in
  \<open>costSumPre\<close> at the end of the pass) is the sum over the rows of \<open>- ln hRes\<^sub>j\<close> when the
  class index is not 0 and \<open>- ln (1 - hRes\<^sub>j)\<close> when it is. Neither depends on what
  \<open>batchArr\<close> or the cost held before the pass: both start from zero in every pass.
\<close>

theorem gradient_pass:
  assumes "wf_state st"
  shows "batchArr (gradient_descent_iteration st) =
      map (\<lambda>k. \<Sum>j<numInst st.
              (snd (activate (featureBuff st) (node st) (j * numFeaturesM st))
                 - real (unat (classIndexBuff st ! j)))
              * featureBuff st ! (j * numFeaturesM st + k))
        [0..<numFeaturesM st] \<and>
    costSumPre (gradient_descent_iteration st) =
      (\<Sum>j<numInst st.
         if classIndexBuff st ! j \<noteq> 0
         then - ln (snd (activate (featureBuff st) (node st) (j * numFeaturesM st)))
         else - ln (1 - snd (activate (featureBuff st) (node st) (j * numFeaturesM st))))"
proof -
  from gradient_descent_iteration_exact [OF assms] obtain a b where
    e: "gradient_descent_iteration st =
     st\<lparr>batchArr := gradient st,
        node := (node st)\<lparr>inputs := a, output := b, weights := new_weights st\<rparr>,
        deltaCostSum := costSumPre st - cost_sum st, costSumPre := cost_sum st,
        iter := (iter st + 1) mod 2 ^ 32\<rparr>"
    by blast
  have g: "gradient st = map (\<lambda>k. \<Sum>j<numInst st.
              (snd (activate (featureBuff st) (node st) (j * numFeaturesM st))
                 - real (unat (classIndexBuff st ! j)))
              * featureBuff st ! (j * numFeaturesM st + k))
        [0..<numFeaturesM st]"
    unfolding gradient_def
    by (intro map_cong refl sum.cong) (simp add: diff_row_def hRes_row_eq [OF assms])
  have c: "cost_sum st = (\<Sum>j<numInst st.
         if classIndexBuff st ! j \<noteq> 0
         then - ln (snd (activate (featureBuff st) (node st) (j * numFeaturesM st)))
         else - ln (1 - snd (activate (featureBuff st) (node st) (j * numFeaturesM st))))"
    unfolding cost_sum_def
    by (intro sum.cong refl) (simp add: computeCost_def hRes_row_eq [OF assms])
  show ?thesis by (simp add: e g c)
qed

theorem gradient_pass_witness:
  "wf_state ex_init \<and> length (batchArr (gradient_descent_iteration ex_init)) = 2 \<and>
   costSumPre (gradient_descent_iteration ex_init) =
     - ln (1 - snd (activate (featureBuff ex_init) (node ex_init) 0))
     - ln (snd (activate (featureBuff ex_init) (node ex_init) 2))
     - ln (snd (activate (featureBuff ex_init) (node ex_init) 4))"
proof -
  have nf: "numFeaturesM ex_init = 2" and ni: "numInst ex_init = 3"
    and cls: "classIndexBuff ex_init = [0, 1, 1]"
    by (simp_all add: ex_init_def main_init_def fv2_def Let_def)
  from gradient_pass [OF wf_ex_init] show ?thesis
    by (simp add: wf_ex_init nf ni cls eval_nat_numeral)
qed

text \<open>
  C5. In a state with buffers of the expected sizes, the weight update of a pass sets
  \<open>weights[k]\<close> to \<open>weights[k] - alpha / numInst * batchArr[k]\<close> for every feature index
  \<open>k < numFeatures\<close>, with the gradient of that pass (for at least one instance: with none
  the C program divides by zero, which the reals do not model). The gradient buffer has
  \<open>numFeatures\<close> cells, none for the bias, and the bias \<open>weights[numFeatures]\<close> is the same
  after a pass and after the whole loop as before.
\<close>

theorem weight_update:
  assumes "wf_state st"
  shows "(0 < numInst st \<longrightarrow>
       (\<forall>k<numFeaturesM st.
          weights (node (gradient_descent_iteration st)) ! k =
            weights (node st) ! k
              - alpha / real (numInst st) * batchArr (gradient_descent_iteration st) ! k)) \<and>
     length (batchArr (gradient_descent_iteration st)) = numFeaturesM st \<and>
     weights (node (gradient_descent_iteration st)) ! numFeaturesM st =
       weights (node st) ! numFeaturesM st \<and>
     weights (node (train st)) ! numFeaturesM st = weights (node st) ! numFeaturesM st"
proof -
  have "weights (node (gradient_descent_iteration st)) ! k =
            weights (node st) ! k
              - alpha / real (numInst st) * batchArr (gradient_descent_iteration st) ! k"
    if "k < numFeaturesM st" for k
    using that by (simp add: weights_iteration [OF assms] new_weights_def nth_append del: upt_Suc)
  moreover have "length (batchArr (gradient_descent_iteration st)) = numFeaturesM st"
    by (simp add: weights_iteration [OF assms] gradient_def)
  ultimately show ?thesis
    using bias_iteration [OF assms] bias_train [OF assms] by blast
qed

theorem weight_update_witness:
  "wf_state ex_init \<and> weights (node (train ex_init)) ! 2 = memset_value 1 \<and>
   weights (node (gradient_descent_iteration ex_init)) ! 0 =
     memset_value 1 - 50 / 3 * batchArr (gradient_descent_iteration ex_init) ! 0"
  using weight_update [OF wf_ex_init]
  by (simp add: wf_ex_init ex_init_fields ex_init_weights alpha_def)

text \<open>
  C2. Every pass computes \<open>deltaCostSum\<close> as the old \<open>costSumPre\<close> minus the cost of the
  pass and stores that cost in \<open>costSumPre\<close>; with buffers of the expected sizes the cost
  of the pass is \<open>cost_sum\<close>, the sum of \<^verbatim>\<open>computeCost\<close> over the rows for the weights at
  the start of the pass, in every pass of the run of \<^verbatim>\<open>main\<close>. In that run, \<open>iter\<close> at
  the end of pass \<open>k + 1\<close> is \<open>k + 1\<close>, the number of completed passes; another pass follows
  exactly when that number is 1, or \<open>deltaCostSum\<close> exceeds 1 and the number is below 200,
  and the next pass starts from the state the last one left. In particular a pass that
  ends with \<open>deltaCostSum \<le> 1\<close> and at least 2 completed passes is the last one, and
  \<^verbatim>\<open>main\<close> ends in its state.
\<close>

theorem stopping_rule:
  "deltaCostSum (gradient_descent_iteration st) =
     costSumPre st - costSumPre (gradient_descent_iteration st) \<and>
   train_states (main_init fv buf cls n) ! 0 = gradient_descent_iteration (main_init fv buf cls n) \<and>
   (\<forall>k<length (train_states (main_init fv buf cls n)).
      iter (train_states (main_init fv buf cls n) ! k) = k + 1 \<and>
      (Suc k < length (train_states (main_init fv buf cls n)) \<longleftrightarrow>
         iter (train_states (main_init fv buf cls n) ! k) = 1 \<or>
         (1 < deltaCostSum (train_states (main_init fv buf cls n) ! k) \<and>
          iter (train_states (main_init fv buf cls n) ! k) < 200)) \<and>
      (Suc k < length (train_states (main_init fv buf cls n)) \<longrightarrow>
         train_states (main_init fv buf cls n) ! Suc k =
           gradient_descent_iteration (train_states (main_init fv buf cls n) ! k)) \<and>
      (deltaCostSum (train_states (main_init fv buf cls n) ! k) \<le> 1 \<and>
       2 \<le> iter (train_states (main_init fv buf cls n) ! k) \<longrightarrow>
         Suc k = length (train_states (main_init fv buf cls n)))) \<and>
   main fv buf cls n = last (train_states (main_init fv buf cls n)) \<and>
   (wf_state st \<longrightarrow>
      costSumPre (gradient_descent_iteration st) = cost_sum st \<and>
      deltaCostSum (gradient_descent_iteration st) = costSumPre st - cost_sum st) \<and>
   (wf_state (main_init fv buf cls n) \<longrightarrow>
      costSumPre (train_states (main_init fv buf cls n) ! 0) = cost_sum (main_init fv buf cls n) \<and>
      deltaCostSum (train_states (main_init fv buf cls n) ! 0) =
        0 - cost_sum (main_init fv buf cls n) \<and>
      (\<forall>k. Suc k < length (train_states (main_init fv buf cls n)) \<longrightarrow>
         costSumPre (train_states (main_init fv buf cls n) ! Suc k) =
           cost_sum (train_states (main_init fv buf cls n) ! k) \<and>
         deltaCostSum (train_states (main_init fv buf cls n) ! Suc k) =
           costSumPre (train_states (main_init fv buf cls n) ! k)
             - cost_sum (train_states (main_init fv buf cls n) ! k)))"
proof -
  let ?st = "main_init fv buf cls n"
  let ?tr = "train_states ?st"
  have i0: "iter ?st = 0" by simp
  have step: "iter (?tr ! k) = k + 1 \<and>
      (Suc k < length ?tr \<longleftrightarrow>
         iter (?tr ! k) = 1 \<or> (1 < deltaCostSum (?tr ! k) \<and> iter (?tr ! k) < 200)) \<and>
      (Suc k < length ?tr \<longrightarrow> ?tr ! Suc k = gradient_descent_iteration (?tr ! k)) \<and>
      (deltaCostSum (?tr ! k) \<le> 1 \<and> 2 \<le> iter (?tr ! k) \<longrightarrow> Suc k = length ?tr)"
    if k: "k < length ?tr" for k
  proof -
    have c: "Suc k < length ?tr \<longleftrightarrow>
         iter (?tr ! k) = 1 \<or> (1 < deltaCostSum (?tr ! k) \<and> iter (?tr ! k) < 200)"
      using train_states_continue [OF k] by (simp add: continue_loop_def maxIter_def)
    have "Suc k = length ?tr" if "deltaCostSum (?tr ! k) \<le> 1" "2 \<le> iter (?tr ! k)"
    proof -
      from that c have "\<not> Suc k < length ?tr" by simp
      with k show ?thesis by simp
    qed
    with c train_states_iter_init [OF i0 k] train_states_next [of k ?st]
    show ?thesis by blast
  qed
  have pass: "costSumPre (gradient_descent_iteration st) = cost_sum st \<and>
      deltaCostSum (gradient_descent_iteration st) = costSumPre st - cost_sum st"
    if "wf_state st"
    using cost_iteration [OF that] by simp
  have run: "costSumPre (?tr ! 0) = cost_sum ?st \<and>
      deltaCostSum (?tr ! 0) = 0 - cost_sum ?st \<and>
      (\<forall>k. Suc k < length ?tr \<longrightarrow>
         costSumPre (?tr ! Suc k) = cost_sum (?tr ! k) \<and>
         deltaCostSum (?tr ! Suc k) = costSumPre (?tr ! k) - cost_sum (?tr ! k))"
    if wf: "wf_state ?st"
  proof -
    have "costSumPre (?tr ! Suc k) = cost_sum (?tr ! k) \<and>
         deltaCostSum (?tr ! Suc k) = costSumPre (?tr ! k) - cost_sum (?tr ! k)"
      if k: "Suc k < length ?tr" for k
    proof -
      from k have "k < length ?tr" by simp
      then have "wf_state (?tr ! k)" using wf by (intro train_states_wf)
      from cost_iteration [OF this] show ?thesis
        by (simp add: train_states_next [OF k])
    qed
    then show ?thesis
      using cost_iteration [OF wf] by (simp add: hd_train_states)
  qed
  show ?thesis
    using step pass run
    by (simp add: gradient_descent_iteration_frame hd_train_states main_def train_last)
qed

text \<open>
  Two runs: on the constant dataset the second pass ends with \<open>deltaCostSum = 0\<close> and is
  the last; on the four-row dataset it ends with \<open>deltaCostSum > 1\<close> and a third follows.
\<close>

theorem stopping_rule_witness:
  "length (train_states (main_init fv0 [0, 0] [0, 1] 2)) = 2 \<and>
   iter (train_states (main_init fv0 [0, 0] [0, 1] 2) ! 1) = 2 \<and>
   deltaCostSum (train_states (main_init fv0 [0, 0] [0, 1] 2) ! 1) = 0 \<and>
   2 < length (train_states (main_init fv4 [- 1, 1, - 1, 1] [0, 1, 0, 1] 4)) \<and>
   iter (train_states (main_init fv4 [- 1, 1, - 1, 1] [0, 1, 0, 1] 4) ! 1) = 2 \<and>
   1 < deltaCostSum (train_states (main_init fv4 [- 1, 1, - 1, 1] [0, 1, 0, 1] 4) ! 1) \<and>
   wf_state ex4_init \<and>
   deltaCostSum (gradient_descent_iteration ex4_init) = 0 - cost_sum ex4_init"
proof -
  let ?st = "main_init fv0 [0, 0] [0, 1] 2"
  let ?tr = "train_states ?st"
  note rule = stopping_rule [of ex0_init fv0 "[0, 0]" "[0, 1]" 2,
      THEN conjunct2, THEN conjunct2, THEN conjunct1, rule_format]
  have len: "1 < length ?tr"
    using train_states_length_init(2) [of ?st] by simp
  note first = stopping_rule [of ex0_init fv0 "[0, 0]" "[0, 1]" 2,
      THEN conjunct2, THEN conjunct1]
  have len0: "0 < length ?tr" using len by (cases ?tr) simp_all
  have t1: "?tr ! Suc 0 = gradient_descent_iteration (gradient_descent_iteration ?st)"
    using rule [OF len0] len first by simp
  have d: "deltaCostSum (?tr ! Suc 0) = 0"
    using ex0_second_delta by (simp add: t1 ex0_init_def)
  have len1: "Suc 0 < length ?tr" using len by simp
  have i: "iter (?tr ! Suc 0) = 2"
    using rule [OF len1] by simp
  have "Suc (Suc 0) = length ?tr"
    using rule [OF len1] d i by simp
  with d i have halt: "length ?tr = 2 \<and> iter (?tr ! 1) = 2 \<and> deltaCostSum (?tr ! 1) = 0"
    by simp
  let ?st4 = "main_init fv4 [- 1, 1, - 1, 1] [0, 1, 0, 1] 4"
  let ?tr4 = "train_states ?st4"
  note rule4 = stopping_rule [of ex4_init fv4 "[- 1, 1, - 1, 1]" "[0, 1, 0, 1]" 4,
      THEN conjunct2, THEN conjunct2, THEN conjunct1, rule_format]
  note first4 = stopping_rule [of ex4_init fv4 "[- 1, 1, - 1, 1]" "[0, 1, 0, 1]" 4,
      THEN conjunct2, THEN conjunct1]
  note pass4 = stopping_rule [of ex4_init fv4 "[- 1, 1, - 1, 1]" "[0, 1, 0, 1]" 4,
      THEN conjunct2, THEN conjunct2, THEN conjunct2, THEN conjunct2, THEN conjunct1,
      rule_format, OF wf_ex4_init]
  have len4: "1 < length ?tr4"
    using train_states_length_init(2) [of ?st4] by simp
  have len40: "0 < length ?tr4" using len4 by (cases ?tr4) simp_all
  have len41: "Suc 0 < length ?tr4" using len4 by simp
  have t41: "?tr4 ! Suc 0 = gradient_descent_iteration (gradient_descent_iteration ?st4)"
    using rule4 [OF len40] len4 first4 by simp
  have d4: "1 < deltaCostSum (?tr4 ! Suc 0)"
    using ex4_second_delta by (simp add: t41 ex4_init_def)
  have i4: "iter (?tr4 ! Suc 0) = 2"
    using rule4 [OF len41] by simp
  have "Suc (Suc 0) < length ?tr4"
    using rule4 [OF len41] d4 i4 by simp
  with d4 i4 have go: "2 < length ?tr4 \<and> iter (?tr4 ! 1) = 2 \<and> 1 < deltaCostSum (?tr4 ! 1)"
    by simp
  have "costSumPre ex4_init = 0" by (simp add: ex4_init_def)
  with pass4 have "deltaCostSum (gradient_descent_iteration ex4_init) = 0 - cost_sum ex4_init"
    by simp
  with halt go wf_ex4_init show ?thesis by blast
qed

text \<open>
  C6. For every dataset the loop of \<^verbatim>\<open>main\<close> makes at most \<open>maxIter = 200\<close> passes
  (\<open>train\<close> and \<open>train_states\<close> are total: their termination is proved above). The state
  \<^verbatim>\<open>main\<close> ends in is the state at the end of the last pass, with \<open>iter\<close> the number of
  passes made and the loop condition false; its weights are those of that state.
\<close>

theorem training_terminates:
  "length (train_states (main_init fv buf cls n)) \<le> maxIter \<and> maxIter = 200 \<and>
   main fv buf cls n = last (train_states (main_init fv buf cls n)) \<and>
   iter (main fv buf cls n) = length (train_states (main_init fv buf cls n)) \<and>
   \<not> continue_loop (main fv buf cls n) \<and>
   weights (node (main fv buf cls n)) =
     weights (node (last (train_states (main_init fv buf cls n))))"
proof -
  let ?tr = "train_states (main_init fv buf cls n)"
  have i0: "iter (main_init fv buf cls n) = 0" by simp
  have ne: "?tr \<noteq> []" by (rule train_states_not_Nil)
  then have k: "length ?tr - 1 < length ?tr" by simp
  have "iter (last ?tr) = length ?tr"
    using train_states_iter_init [OF i0 k] ne by (simp add: last_conv_nth)
  then show ?thesis
    using train_states_length_init(1) [OF i0] train_stops [of "main_init fv buf cls n"]
    by (simp add: main_def train_last maxIter_def)
qed

text \<open>
  C10. For every dataset the loop of \<^verbatim>\<open>main\<close> makes at least two passes: the first ends
  with \<open>iter = 1\<close>, for which the loop condition holds whatever \<open>deltaCostSum\<close> is, and
  the second starts from the state the first one left, so the weights are updated twice.
  After the first pass \<open>deltaCostSum\<close> is \<open>0 - costSumPre\<close>, the negated cost of that pass.
\<close>

theorem at_least_two_iterations:
  "2 \<le> length (train_states (main_init fv buf cls n)) \<and>
   train_states (main_init fv buf cls n) ! 0 = gradient_descent_iteration (main_init fv buf cls n) \<and>
   train_states (main_init fv buf cls n) ! 1 =
     gradient_descent_iteration (gradient_descent_iteration (main_init fv buf cls n)) \<and>
   iter (train_states (main_init fv buf cls n) ! 0) = 1 \<and>
   continue_loop (train_states (main_init fv buf cls n) ! 0) \<and>
   deltaCostSum (train_states (main_init fv buf cls n) ! 0) =
     0 - costSumPre (train_states (main_init fv buf cls n) ! 0) \<and>
   2 \<le> iter (main fv buf cls n)"
proof -
  let ?st = "main_init fv buf cls n"
  let ?tr = "train_states ?st"
  have i0: "iter ?st = 0" by simp
  have len: "2 \<le> length ?tr" by (rule train_states_length_init(2) [OF i0])
  then have n1: "Suc 0 < length ?tr" by simp
  have t1: "?tr ! 1 = gradient_descent_iteration (gradient_descent_iteration ?st)"
    using train_states_next [OF n1] by (simp add: hd_train_states)
  have it: "iter (gradient_descent_iteration ?st) = 1"
    by (simp add: iter_gradient_descent_iteration)
  have d: "deltaCostSum (gradient_descent_iteration ?st) =
      0 - costSumPre (gradient_descent_iteration ?st)"
    using gradient_descent_iteration_frame(7) [of ?st] by simp
  have ne: "?tr \<noteq> []" by (rule train_states_not_Nil)
  then have k: "length ?tr - 1 < length ?tr" by simp
  have "iter (last ?tr) = length ?tr"
    using train_states_iter_init [OF i0 k] ne by (simp add: last_conv_nth)
  with len have "2 \<le> iter (main fv buf cls n)"
    by (simp add: main_def train_last)
  with len t1 it d show ?thesis
    by (simp add: hd_train_states continue_loop_def)
qed

text \<open>
  C9. A pass through the loop body leaves the feature buffer and the class indices as they
  were, and so does the whole loop: every state at the end of a pass, and the final state,
  has the buffer and the class indices of the start. What a pass may change is the
  gradient buffer, the weights (with buffers of the expected sizes not the bias),
  \<open>deltaCostSum\<close> and \<open>costSumPre\<close>, and besides them the loop counter \<open>iter\<close> and the node's
  record of its last input row and output; every other variable is as before.
\<close>

theorem training_frame:
  "featureBuff (gradient_descent_iteration st) = featureBuff st \<and>
   classIndexBuff (gradient_descent_iteration st) = classIndexBuff st \<and>
   list_all (\<lambda>s. featureBuff s = featureBuff st \<and> classIndexBuff s = classIndexBuff st)
     (train_states st) \<and>
   featureBuff (train st) = featureBuff st \<and>
   classIndexBuff (train st) = classIndexBuff st \<and>
   (\<exists>a b B c W. gradient_descent_iteration st =
      st\<lparr>batchArr := B, node := (node st)\<lparr>inputs := a, output := b, weights := W\<rparr>,
         deltaCostSum := costSumPre st - c, costSumPre := c, iter := (iter st + 1) mod 2 ^ 32\<rparr>) \<and>
   (wf_state st \<longrightarrow>
      weights (node (gradient_descent_iteration st)) ! numFeaturesM st =
        weights (node st) ! numFeaturesM st)"
  using gradient_descent_iteration_shape [of st] train_states_frame [of st] train_frame [of st]
    bias_iteration [of st]
  by (simp add: gradient_descent_iteration_frame)

theorem training_frame_witness:
  "wf_state ex_init \<and>
   featureBuff (train ex_init) = featureBuff ex_init \<and>
   classIndexBuff (train ex_init) = [0, 1, 1] \<and>
   weights (node (gradient_descent_iteration ex_init)) ! 2 = memset_value 1"
  using training_frame [of ex_init]
  by (simp add: wf_ex_init ex_init_fields ex_init_weights)

text \<open>
  The loop counter is among the variables a pass changes: on the example it is 0 on entry
  and 1 after the first pass.
\<close>

theorem iteration_changes_iter:
  "iter ex_init = 0 \<and> iter (gradient_descent_iteration ex_init) = 1"
  by (simp add: iter_gradient_descent_iteration ex_init_fields)

text \<open>
  C7. For a number of features below \<open>2\<^sup>3\<^sup>2 - 1\<close>, \<^verbatim>\<open>initNode\<close> makes a weight vector of
  \<open>numFeatures + 1\<close> entries. \<^verbatim>\<open>memset\<close> sets every byte to 1, so each entry is the double
  with the bit pattern \<open>0x0101010101010101\<close> (72340172838076673), which is the non-zero
  number \<open>4786178427519233 / 2\<^sup>1\<^sup>0\<^sup>5\<^sup>9\<close>. No pass of the loop, and so not the loop as a whole,
  changes the length of the vector.
\<close>

theorem initNode_weights:
  assumes "nF < 2 ^ 32 - 1"
  shows "weights (initNode nF) = replicate (nF + 1) (memset_value 1) \<and>
    memset_value 1 = double_value 72340172838076673 \<and>
    memset_value 1 = 4786178427519233 / 2 ^ 1059 \<and>
    memset_value 1 \<noteq> 0 \<and>
    length (weights (node (gradient_descent_iteration st))) = length (weights (node st)) \<and>
    length (weights (node (train st))) = length (weights (node st))"
proof -
  have v: "memset_value 1 = 4786178427519233 / 2 ^ 1059"
    by (simp add: memset_value_1)
  have "memset_value 1 = double_value 72340172838076673"
    by (simp add: memset_value_def sizeof_double_def rcat_ones)
  moreover have "memset_value 1 \<noteq> 0" by (simp add: v)
  ultimately show ?thesis
    using v by (simp add: initNode_eq [OF assms] length_weights_iteration length_weights_train
        del: replicate_Suc)
qed

theorem initNode_weights_witness:
  "weights (initNode 2) = replicate 3 (memset_value 1) \<and> 0 < memset_value 1"
proof -
  have "(2::nat) < 2 ^ 32 - 1" by simp
  from initNode_weights [OF this, of ex_init] show ?thesis
    by (simp del: replicate_Suc)
qed

text \<open>
  C4. \<^verbatim>\<open>activate\<close> returns \<open>1 / (1 + exp (- linear))\<close> for
  \<open>linear = weights[numFeatures] + \<Sum>\<^sub>i weights[i] * row[i]\<close>, stores it in the node's
  \<open>output\<close> and the row pointer in \<open>inputs\<close>. In exact arithmetic this value is strictly
  between 0 and 1 for all weights and rows.
\<close>

theorem activate_value:
  "snd (activate mem nd p) =
     1 / (1 + exp (- (weights nd ! numFeatures nd +
                      (\<Sum>i<numFeatures nd. weights nd ! i * mem ! (p + i))))) \<and>
   0 < snd (activate mem nd p) \<and> snd (activate mem nd p) < 1 \<and>
   output (fst (activate mem nd p)) = snd (activate mem nd p) \<and>
   inputs (fst (activate mem nd p)) = p"
proof -
  let ?l = "weights nd ! numFeatures nd + (\<Sum>i<numFeatures nd. weights nd ! i * mem ! (p + i))"
  have "0 < exp (- ?l)" by simp
  then have "0 < 1 / (1 + exp (- ?l))" "1 / (1 + exp (- ?l)) < 1"
    by (simp_all add: add_pos_pos)
  then show ?thesis
    by (simp add: activate_eq sigmoid_def linear_def)
qed

text \<open>
  In double arithmetic the value is not always strictly below 1: for weight 60, bias 0 and
  the row \<open>(1)\<close> the linear combination is 60, \<open>exp (- 60)\<close> is below \<open>2\<^sup>-\<^sup>5\<^sup>3\<close>, so
  \<open>1 + exp (- 60)\<close> rounds to 1 and the result is exactly 1. (Any value an
  implementation of \<^verbatim>\<open>exp\<close> returns for \<open>- 60\<close> that is not negative and below \<open>2\<^sup>-\<^sup>5\<^sup>3\<close>
  gives the same result.)
\<close>

theorem activate_double_saturates:
  "activate_double [1] node_sat 0 = Some 1"
proof -
  have r60: "double_round 60 = Some 60"
    by (rule double_round_exact [of 5 60 60]) simp_all
  have r1: "double_round 1 = Some 1"
    by (rule double_round_exact [of 0 1 1]) simp_all
  from double_round_small [OF exp_60_bounds(1)] obtain y where
    y: "double_round (exp (- 60)) = Some y" and y0: "0 \<le> y" and y1: "y \<le> 2 * exp (- 60)"
    by auto
  have "y \<le> 2 * (1 / 2 ^ 60)" using y1 exp_60_bounds(2) by simp
  also have "\<dots> < (1::real) / 2 ^ 53" by simp
  finally have "double_round (1 + y) = Some 1"
    using y0 by (intro double_round_one_plus)
  then show ?thesis
    by (simp add: activate_double_def node_sat_def Let_def fexp_def y fadd_def fmul_def
        fdiv_def r1 r60)
qed

end
